theory Spec2Isabelle
  imports Main "HOL-Library.Word"
begin

unbundle bit_operations_syntax

section \<open>The PIC24 I2C master driver (i2cDriver.h, i2cDriver.c)\<close>

text \<open>
  The driver is a state machine run by the master-event interrupt of the I2C peripheral,
  together with the request functions that encode a transfer into the shared TX/RX buffer.
  The embedding keeps every global variable of \<^verbatim>\<open>i2cDriver.c\<close> and every peripheral
  register the code touches as a field of one record, and every C function as a function
  from that record to its successor.

  Integer widths are those of the target (XC16 on PIC24): \<^verbatim>\<open>unsigned char\<close> is 8 bits,
  \<^verbatim>\<open>int\<close>, \<^verbatim>\<open>unsigned int\<close> and \<^verbatim>\<open>size_t\<close> are 16 bits; unsigned arithmetic wraps.
\<close>

subsection \<open>Types of i2cDriver.h\<close>

type_synonym u8 = "8 word"
type_synonym size_t = "16 word"
type_synonym uint = "16 word"

datatype i2c_states =
    I2C_STATE_idle
  | I2C_STATE_sendingStart
  | I2C_STATE_dataTX
  | I2C_STATE_sendingRestart
  | I2C_STATE_sendingStop
  | I2C_STATE_dataRX
  | I2C_STATE_ack
  | I2C_STATE_error
  | I2C_STATE_disabled

datatype i2c_errors =
    I2C_ERR_noError
  | I2C_ERR_internal
  | I2C_ERR_inErrorState
  | I2C_ERR_busy
  | I2C_ERR_TXBufferOverflow
  | I2C_ERR_RXBufferOverflow
  | I2C_ERR_slaveNACK
  | I2C_ERR_nothingReceived
  | I2C_ERR_collisionDetected
  | I2C_ERR_disabled

text \<open>\<^verbatim>\<open>#define I2C_TRX_BUFFER_SIZE 32\<close>; in every comparison of the source the other operand
  is a \<^verbatim>\<open>size_t\<close> (or the comparison is between constants), so the constant is read at that
  type.\<close>

definition I2C_TRX_BUFFER_SIZE :: size_t where
  "I2C_TRX_BUFFER_SIZE = 32"

subsection \<open>The driver's variables and the peripheral's registers\<close>

text \<open>
  The first seven fields are the variables of \<^verbatim>\<open>i2cDriver.c\<close>; the others are the bits
  and registers of the peripheral and of the interrupt controller that the code reads or
  writes (\<^verbatim>\<open>I2CxCON\<close>, \<^verbatim>\<open>I2CxSTAT\<close>, \<^verbatim>\<open>I2CxBRG\<close>, \<^verbatim>\<open>I2CxRCV\<close>, \<^verbatim>\<open>I2CxTRN\<close>, and the
  enable, priority and flag of the master interrupt).
  \<open>TRXBuffer\<close> is the array \<^verbatim>\<open>TRXBuffer[I2C_TRX_BUFFER_SIZE]\<close>: a list of 32 bytes.
\<close>

record driver =
  i2c_state :: i2c_states
  i2c_error :: i2c_errors
  i2c_stayInErrorState :: bool
  TRXBuffer :: "u8 list"
  TRXBufferCurrPos :: size_t
  TRXBufferLen :: size_t
  numRXBytes :: uint
  I2CEN :: bool
  DISSLW :: bool
  ACKDT :: bool
  ACKEN :: bool
  RCEN :: bool
  PEN :: bool
  RSEN :: bool
  SEN :: bool
  BCL :: bool
  ACKSTAT :: bool
  I2CBRG :: "16 word"
  I2CRCV :: u8
  I2CTRN :: u8
  MI2CIE :: bool
  MI2CIP :: int
  MI2CIF :: bool

subsection \<open>Array accesses\<close>

text \<open>
  An access to an array with a computed index is checked: outside the array it is
  undefined behaviour in C, and the function that makes it returns \<open>None\<close>.
  The indices 0, 1 and 2 are inside the 32-byte buffer by its declaration.
\<close>

definition buf_get :: "u8 list \<Rightarrow> nat \<Rightarrow> u8 option" where
  "buf_get b i = (if i < length b then Some (b ! i) else None)"

definition buf_set :: "u8 list \<Rightarrow> nat \<Rightarrow> u8 \<Rightarrow> u8 list option" where
  "buf_set b i v = (if i < length b then Some (b[i := v]) else None)"

subsection \<open>The macros of i2cDriver.c\<close>

text \<open>
  \<^verbatim>\<open>waitUntilIdle()\<close> spins, with an empty body, while one of ACKEN, RCEN, PEN, RSEN, SEN is
  set. The peripheral clears each of these bits when the bus action it started is over, so
  the loop is left exactly in a state where all five read 0; nothing else changes
  meanwhile. The embedding takes that state.
\<close>

definition waitUntilIdle :: "driver \<Rightarrow> driver" where
  "waitUntilIdle s =
     s\<lparr>ACKEN := False, RCEN := False, PEN := False, RSEN := False, SEN := False\<rparr>"

definition i2c_write :: "u8 \<Rightarrow> driver \<Rightarrow> driver" where
  "i2c_write d s = (waitUntilIdle s)\<lparr>I2CTRN := d\<rparr>"

definition sendStartCondition :: "driver \<Rightarrow> driver" where
  "sendStartCondition s =
     (waitUntilIdle s)\<lparr>SEN := True, i2c_state := I2C_STATE_sendingStart\<rparr>"

definition sendReStartCondition :: "driver \<Rightarrow> driver" where
  "sendReStartCondition s =
     (waitUntilIdle s)\<lparr>RSEN := True, i2c_state := I2C_STATE_sendingRestart\<rparr>"

definition sendStopCondition :: "driver \<Rightarrow> driver" where
  "sendStopCondition s =
     (waitUntilIdle s)\<lparr>PEN := True, i2c_state := I2C_STATE_sendingStop\<rparr>"

definition sendAck :: "driver \<Rightarrow> driver" where
  "sendAck s = (waitUntilIdle s)\<lparr>ACKEN := True, i2c_state := I2C_STATE_ack\<rparr>"

definition stopDueToError :: "i2c_errors \<Rightarrow> driver \<Rightarrow> driver" where
  "stopDueToError e s =
     (let s1 = s\<lparr>i2c_error := e\<rparr>
      in if i2c_stayInErrorState s1 then s1\<lparr>i2c_state := I2C_STATE_error\<rparr>
         else sendStopCondition s1)"

subsection \<open>Reset, busy, init, disable, enable\<close>

definition i2c_reset :: "driver \<Rightarrow> driver" where
  "i2c_reset s =
     s\<lparr>i2c_state := I2C_STATE_idle, i2c_error := I2C_ERR_noError, BCL := False\<rparr>"

definition i2c_busy :: "driver \<Rightarrow> bool" where
  "i2c_busy s \<longleftrightarrow> i2c_state s \<noteq> I2C_STATE_idle \<and> i2c_state s \<noteq> I2C_STATE_error"

definition i2c_init :: "16 word \<Rightarrow> bool \<Rightarrow> int \<Rightarrow> driver \<Rightarrow> driver" where
  "i2c_init brg enableSlewRateControl priority s =
     i2c_reset
       (s\<lparr>I2CBRG := brg,
          I2CEN := False,
          DISSLW := \<not> enableSlewRateControl,
          MI2CIF := False,
          MI2CIE := True,
          MI2CIP := (if priority \<ge> 0 \<and> priority \<le> 7 then priority else 1),
          ACKDT := False,
          I2CEN := True\<rparr>)"

definition i2c_disable :: "driver \<Rightarrow> driver" where
  "i2c_disable s = s\<lparr>MI2CIE := False, I2CEN := False, i2c_state := I2C_STATE_disabled\<rparr>"

definition i2c_enable :: "driver \<Rightarrow> driver" where
  "i2c_enable s = i2c_init (I2CBRG s) (\<not> DISSLW s) (MI2CIP s) s"

subsection \<open>The request functions\<close>

text \<open>Each request function returns its \<^verbatim>\<open>int\<close> result (a value of \<open>i2c_errors\<close>) and the
  new state. \<^verbatim>\<open>(address << 1) & 0xfe\<close> is computed in \<^verbatim>\<open>int\<close> and stored into an
  \<^verbatim>\<open>unsigned char\<close>: the low eight bits.\<close>

definition i2c_putc :: "u8 \<Rightarrow> u8 \<Rightarrow> u8 \<Rightarrow> driver \<Rightarrow> i2c_errors \<times> driver" where
  "i2c_putc address reg data s =
     (if i2c_error s \<noteq> I2C_ERR_noError then (I2C_ERR_inErrorState, s)
      else if i2c_state s = I2C_STATE_disabled
      then (I2C_ERR_disabled, s\<lparr>i2c_error := I2C_ERR_disabled\<rparr>)
      else if i2c_state s \<noteq> I2C_STATE_idle
      then (I2C_ERR_busy, s\<lparr>i2c_error := I2C_ERR_busy\<rparr>)
      else
        let s1 = s\<lparr>i2c_state := I2C_STATE_error\<rparr>
        in if I2C_TRX_BUFFER_SIZE < 3
           then (I2C_ERR_TXBufferOverflow, s1\<lparr>i2c_error := I2C_ERR_TXBufferOverflow\<rparr>)
           else
             (I2C_ERR_noError,
              sendStartCondition
                (s1\<lparr>TRXBufferLen := 3,
                    TRXBufferCurrPos := 0,
                    TRXBuffer := (TRXBuffer s1)
                      [0 := push_bit 1 address AND 0xfe, 1 := reg, 2 := data],
                    numRXBytes := 0\<rparr>)))"

text \<open>\<^verbatim>\<open>strlen\<close> on the caller's array: the number of bytes before the first zero byte;
  with no zero byte in the array the scan leaves the array.\<close>

fun strlen :: "u8 list \<Rightarrow> nat option" where
  "strlen [] = None"
| "strlen (c # cs) = (if c = 0 then Some 0 else map_option Suc (strlen cs))"

text \<open>\<^verbatim>\<open>for ( i = 0; i < len; ++i ) TRXBuffer[ i + 2 ] = data[ i ];\<close> with \<open>i\<close> a
  \<^verbatim>\<open>size_t\<close>.\<close>

function puts_loop :: "u8 list \<Rightarrow> size_t \<Rightarrow> size_t \<Rightarrow> u8 list \<Rightarrow> u8 list option" where
  "puts_loop data len i buf =
     (if i < len
      then (case buf_get data (unat i) of
              None \<Rightarrow> None
            | Some d \<Rightarrow>
                (case buf_set buf (unat (i + 2)) d of
                   None \<Rightarrow> None
                 | Some buf' \<Rightarrow> puts_loop data len (i + 1) buf'))
      else Some buf)"
  by pat_completeness auto
termination
  by (relation "measure (\<lambda>(data, len, i, buf). unat len - unat i)")
     (simp, simp, unat_arith)

definition i2c_puts ::
  "u8 \<Rightarrow> u8 \<Rightarrow> u8 list \<Rightarrow> size_t \<Rightarrow> driver \<Rightarrow> (i2c_errors \<times> driver) option" where
  "i2c_puts address reg data len s =
     (if i2c_error s \<noteq> I2C_ERR_noError then Some (I2C_ERR_inErrorState, s)
      else if i2c_state s = I2C_STATE_disabled
      then Some (I2C_ERR_disabled, s\<lparr>i2c_error := I2C_ERR_disabled\<rparr>)
      else if i2c_state s \<noteq> I2C_STATE_idle
      then Some (I2C_ERR_busy, s\<lparr>i2c_error := I2C_ERR_busy\<rparr>)
      else
        let s1 = s\<lparr>i2c_state := I2C_STATE_error\<rparr>
        in if I2C_TRX_BUFFER_SIZE < 2 + len
           then Some (I2C_ERR_TXBufferOverflow, s1\<lparr>i2c_error := I2C_ERR_TXBufferOverflow\<rparr>)
           else
             (case (if len = 0 then map_option word_of_nat (strlen data) else Some len) of
                None \<Rightarrow> None
              | Some len' \<Rightarrow>
                  let s2 = s1\<lparr>TRXBufferLen := 2 + len',
                              TRXBufferCurrPos := 0,
                              TRXBuffer := (TRXBuffer s1)
                                [0 := push_bit 1 address AND 0xfe, 1 := reg]\<rparr>
                  in (case puts_loop data len' 0 (TRXBuffer s2) of
                        None \<Rightarrow> None
                      | Some buf' \<Rightarrow>
                          Some (I2C_ERR_noError,
                                sendStartCondition
                                  (s2\<lparr>TRXBuffer := buf', numRXBytes := 0\<rparr>)))))"

definition i2c_getc :: "u8 \<Rightarrow> u8 \<Rightarrow> driver \<Rightarrow> i2c_errors \<times> driver" where
  "i2c_getc address reg s =
     (if i2c_error s \<noteq> I2C_ERR_noError then (I2C_ERR_inErrorState, s)
      else if i2c_state s = I2C_STATE_disabled
      then (I2C_ERR_disabled, s\<lparr>i2c_error := I2C_ERR_disabled\<rparr>)
      else if i2c_state s \<noteq> I2C_STATE_idle
      then (I2C_ERR_busy, s\<lparr>i2c_error := I2C_ERR_busy\<rparr>)
      else
        let s1 = s\<lparr>i2c_state := I2C_STATE_error\<rparr>
        in if I2C_TRX_BUFFER_SIZE < 2
           then (I2C_ERR_TXBufferOverflow, s1\<lparr>i2c_error := I2C_ERR_TXBufferOverflow\<rparr>)
           else
             (I2C_ERR_noError,
              sendStartCondition
                (s1\<lparr>TRXBufferLen := 2,
                    TRXBufferCurrPos := 0,
                    TRXBuffer := (TRXBuffer s1)[0 := push_bit 1 address AND 0xfe, 1 := reg],
                    numRXBytes := 1\<rparr>)))"

definition i2c_gets :: "u8 \<Rightarrow> u8 \<Rightarrow> size_t \<Rightarrow> driver \<Rightarrow> i2c_errors \<times> driver" where
  "i2c_gets address reg len s =
     (if i2c_error s \<noteq> I2C_ERR_noError then (I2C_ERR_inErrorState, s)
      else if i2c_state s = I2C_STATE_disabled
      then (I2C_ERR_disabled, s\<lparr>i2c_error := I2C_ERR_disabled\<rparr>)
      else if i2c_state s \<noteq> I2C_STATE_idle
      then (I2C_ERR_busy, s\<lparr>i2c_error := I2C_ERR_busy\<rparr>)
      else
        let s1 = s\<lparr>i2c_state := I2C_STATE_error\<rparr>
        in if I2C_TRX_BUFFER_SIZE < 2
           then (I2C_ERR_TXBufferOverflow, s1\<lparr>i2c_error := I2C_ERR_TXBufferOverflow\<rparr>)
           else if I2C_TRX_BUFFER_SIZE < 1 + len
           then (I2C_ERR_RXBufferOverflow, s1\<lparr>i2c_error := I2C_ERR_RXBufferOverflow\<rparr>)
           else
             (I2C_ERR_noError,
              sendStartCondition
                (s1\<lparr>TRXBufferLen := 2,
                    TRXBufferCurrPos := 0,
                    TRXBuffer := (TRXBuffer s1)[0 := push_bit 1 address AND 0xfe, 1 := reg],
                    numRXBytes := len\<rparr>)))"

subsection \<open>Retrieving received data\<close>

text \<open>\<^verbatim>\<open>for ( i = 0; i < len; ++i ) data[ i ] = TRXBuffer[ i ];\<close> The second argument
  of \<open>i2c_getData\<close> is the caller's array as it is before the call; the function returns
  the array as it is afterwards.\<close>

function getData_loop :: "u8 list \<Rightarrow> size_t \<Rightarrow> size_t \<Rightarrow> u8 list \<Rightarrow> u8 list option" where
  "getData_loop buf len i data =
     (if i < len
      then (case buf_get buf (unat i) of
              None \<Rightarrow> None
            | Some d \<Rightarrow>
                (case buf_set data (unat i) d of
                   None \<Rightarrow> None
                 | Some data' \<Rightarrow> getData_loop buf len (i + 1) data'))
      else Some data)"
  by pat_completeness auto
termination
  by (relation "measure (\<lambda>(buf, len, i, data). unat len - unat i)")
     (simp, simp, unat_arith)

definition i2c_getData ::
  "u8 list \<Rightarrow> size_t \<Rightarrow> driver \<Rightarrow> (i2c_errors \<times> u8 list \<times> driver) option" where
  "i2c_getData data len s =
     (if i2c_error s \<noteq> I2C_ERR_noError then Some (I2C_ERR_inErrorState, data, s)
      else if i2c_state s = I2C_STATE_disabled
      then Some (I2C_ERR_disabled, data, s\<lparr>i2c_error := I2C_ERR_disabled\<rparr>)
      else if i2c_state s \<noteq> I2C_STATE_idle
      then Some (I2C_ERR_busy, data, s\<lparr>i2c_error := I2C_ERR_busy\<rparr>)
      else if TRXBufferCurrPos s = 0
      then Some (I2C_ERR_nothingReceived, data, s\<lparr>i2c_error := I2C_ERR_nothingReceived\<rparr>)
      else if len < TRXBufferCurrPos s
      then Some (I2C_ERR_RXBufferOverflow, data, s\<lparr>i2c_error := I2C_ERR_RXBufferOverflow\<rparr>)
      else (case getData_loop (TRXBuffer s) len 0 data of
              None \<Rightarrow> None
            | Some data' \<Rightarrow> Some (I2C_ERR_noError, data', s)))"

subsection \<open>The interrupt routine\<close>

text \<open>The branches of the \<^verbatim>\<open>switch\<close> that touch the buffer, one function each.\<close>

definition isr_start :: "driver \<Rightarrow> driver option" where
  "isr_start s =
     (if TRXBufferCurrPos s = TRXBufferLen s then Some (stopDueToError I2C_ERR_internal s)
      else
        let s1 = s\<lparr>i2c_state := I2C_STATE_dataTX\<rparr>
        in (case buf_get (TRXBuffer s1) (unat (TRXBufferCurrPos s1)) of
              None \<Rightarrow> None
            | Some d \<Rightarrow>
                Some (i2c_write d (s1\<lparr>TRXBufferCurrPos := TRXBufferCurrPos s1 + 1\<rparr>))))"

definition isr_dataTX :: "driver \<Rightarrow> driver option" where
  "isr_dataTX s =
     (if ACKSTAT s then Some (stopDueToError I2C_ERR_slaveNACK s)
      else if TRXBufferCurrPos s = TRXBufferLen s
      then
        (if numRXBytes s \<noteq> 0
         then
           (if (TRXBuffer s ! 0) AND 0x01 \<noteq> 0
            then Some ((waitUntilIdle
                          (s\<lparr>TRXBufferCurrPos := 0, i2c_state := I2C_STATE_dataRX\<rparr>))
                       \<lparr>RCEN := True\<rparr>)
            else Some (sendReStartCondition
                         (s\<lparr>TRXBufferCurrPos := 0,
                            TRXBuffer := (TRXBuffer s)[0 := (TRXBuffer s ! 0) OR 0x01],
                            TRXBufferLen := 1\<rparr>)))
         else Some (sendStopCondition s))
      else
        (case buf_get (TRXBuffer s) (unat (TRXBufferCurrPos s)) of
           None \<Rightarrow> None
         | Some d \<Rightarrow>
             Some (i2c_write d (s\<lparr>TRXBufferCurrPos := TRXBufferCurrPos s + 1\<rparr>))))"

definition isr_dataRX :: "driver \<Rightarrow> driver option" where
  "isr_dataRX s =
     (case buf_set (TRXBuffer s) (unat (TRXBufferCurrPos s)) (I2CRCV s) of
        None \<Rightarrow> None
      | Some buf' \<Rightarrow>
          let s1 = s\<lparr>TRXBuffer := buf', TRXBufferCurrPos := TRXBufferCurrPos s + 1\<rparr>
          in if TRXBufferCurrPos s1 = numRXBytes s1 then Some (sendStopCondition s1)
             else Some (sendAck s1))"

definition resetI2CInterruptFlag :: "driver \<Rightarrow> driver" where
  "resetI2CInterruptFlag s = s\<lparr>MI2CIF := False\<rparr>"

definition I2CInterruptRoutine :: "driver \<Rightarrow> driver option" where
  "I2CInterruptRoutine s =
     (if BCL s
      then Some (resetI2CInterruptFlag
                   (s\<lparr>i2c_state := I2C_STATE_error, i2c_error := I2C_ERR_collisionDetected\<rparr>))
      else
        map_option resetI2CInterruptFlag
          (case i2c_state s of
             I2C_STATE_idle \<Rightarrow>
               Some (s\<lparr>i2c_error := I2C_ERR_internal, i2c_state := I2C_STATE_error\<rparr>)
           | I2C_STATE_sendingStart \<Rightarrow> isr_start s
           | I2C_STATE_sendingRestart \<Rightarrow> isr_start s
           | I2C_STATE_dataTX \<Rightarrow> isr_dataTX s
           | I2C_STATE_sendingStop \<Rightarrow> Some (s\<lparr>i2c_state := I2C_STATE_idle\<rparr>)
           | I2C_STATE_dataRX \<Rightarrow> isr_dataRX s
           | I2C_STATE_ack \<Rightarrow>
               Some ((waitUntilIdle (s\<lparr>i2c_state := I2C_STATE_dataRX\<rparr>))\<lparr>RCEN := True\<rparr>)
           | I2C_STATE_error \<Rightarrow> Some s
           | I2C_STATE_disabled \<Rightarrow> Some s))"

subsection \<open>Sequences of calls and interrupts\<close>

text \<open>
  What happens to the driver is a sequence of calls of its functions from the main program
  and of master interrupts. Before the peripheral raises a master interrupt it has set
  the status the routine reads: the collision bit, the acknowledge status and the receive
  register, and the interrupt flag. \<open>Set_stayInErrorState\<close> is an assignment to the public
  variable \<^verbatim>\<open>i2c_stayInErrorState\<close>. The events are taken one after the other: an
  interrupt runs between two calls of the main program, not inside one.
\<close>

datatype event =
    Putc u8 u8 u8
  | Puts u8 u8 "u8 list" size_t
  | Getc u8 u8
  | Gets u8 u8 size_t
  | GetData "u8 list" size_t
  | Reset
  | Init "16 word" bool int
  | Disable
  | Enable
  | Set_stayInErrorState bool
  | Interrupt bool bool u8

definition master_interrupt :: "bool \<Rightarrow> bool \<Rightarrow> u8 \<Rightarrow> driver \<Rightarrow> driver option" where
  "master_interrupt bcl ackstat rcv s =
     I2CInterruptRoutine (s\<lparr>BCL := bcl, ACKSTAT := ackstat, I2CRCV := rcv, MI2CIF := True\<rparr>)"

text \<open>One event: the \<^verbatim>\<open>int\<close> result of the call, if it has one, and the next state.\<close>

fun step :: "event \<Rightarrow> driver \<Rightarrow> (i2c_errors option \<times> driver) option" where
  "step (Putc a r d) s = Some (Some (fst (i2c_putc a r d s)), snd (i2c_putc a r d s))"
| "step (Puts a r d n) s =
     (case i2c_puts a r d n s of None \<Rightarrow> None | Some (e, t) \<Rightarrow> Some (Some e, t))"
| "step (Getc a r) s = Some (Some (fst (i2c_getc a r s)), snd (i2c_getc a r s))"
| "step (Gets a r n) s = Some (Some (fst (i2c_gets a r n s)), snd (i2c_gets a r n s))"
| "step (GetData d n) s =
     (case i2c_getData d n s of None \<Rightarrow> None | Some (e, d', t) \<Rightarrow> Some (Some e, t))"
| "step Reset s = Some (None, i2c_reset s)"
| "step (Init brg slew pri) s = Some (None, i2c_init brg slew pri s)"
| "step Disable s = Some (None, i2c_disable s)"
| "step Enable s = Some (None, i2c_enable s)"
| "step (Set_stayInErrorState b) s = Some (None, s\<lparr>i2c_stayInErrorState := b\<rparr>)"
| "step (Interrupt bcl ackstat rcv) s =
     (case master_interrupt bcl ackstat rcv s of None \<Rightarrow> None | Some t \<Rightarrow> Some (None, t))"

text \<open>A sequence of events: the result and the state after each of them.\<close>

fun exec :: "event list \<Rightarrow> driver \<Rightarrow> (i2c_errors option \<times> driver) list option" where
  "exec [] s = Some []"
| "exec (e # es) s =
     (case step e s of
        None \<Rightarrow> None
      | Some (r, t) \<Rightarrow> map_option ((#) (r, t)) (exec es t))"

text \<open>The state a sequence of events ends in.\<close>

fun run :: "event list \<Rightarrow> driver \<Rightarrow> driver option" where
  "run [] s = Some s"
| "run (e # es) s = (case step e s of None \<Rightarrow> None | Some (r, t) \<Rightarrow> run es t)"

text \<open>
  The state at program start: the C start-up code zeroes the variables that have no
  initialiser (so \<open>i2c_state\<close> is \<^verbatim>\<open>I2C_STATE_idle\<close> and \<open>i2c_error\<close> is
  \<^verbatim>\<open>I2C_ERR_noError\<close>), \<^verbatim>\<open>i2c_stayInErrorState\<close> is initialised to \<^verbatim>\<open>true\<close>, and the
  peripheral is as after a device reset. \<open>boot\<close> is the state after the program has called
  \<^verbatim>\<open>i2c_init\<close>.
\<close>

definition power_on :: driver where
  "power_on =
     \<lparr>i2c_state = I2C_STATE_idle, i2c_error = I2C_ERR_noError, i2c_stayInErrorState = True,
      TRXBuffer = replicate 32 0, TRXBufferCurrPos = 0, TRXBufferLen = 0, numRXBytes = 0,
      I2CEN = False, DISSLW = False, ACKDT = False, ACKEN = False, RCEN = False,
      PEN = False, RSEN = False, SEN = False, BCL = False, ACKSTAT = False,
      I2CBRG = 0, I2CRCV = 0, I2CTRN = 0xff, MI2CIE = False, MI2CIP = 4, MI2CIF = False\<rparr>"

definition boot :: driver where
  "boot = i2c_init 157 True 1 power_on"

subsection \<open>Predicates used in the statements\<close>

text \<open>The invariant of the transaction buffer in the words of the specification:
  \<open>0 \<le> cursor \<le> length \<le> capacity\<close>, with capacity 32.\<close>

definition spec_buffer_invariant :: "driver \<Rightarrow> bool" where
  "spec_buffer_invariant s \<longleftrightarrow>
     TRXBufferCurrPos s \<le> TRXBufferLen s \<and> TRXBufferLen s \<le> I2C_TRX_BUFFER_SIZE"

text \<open>A transaction is active in the six states between the start condition and the end
  of the stop condition.\<close>

definition transaction_active :: "driver \<Rightarrow> bool" where
  "transaction_active s \<longleftrightarrow>
     i2c_state s \<in> {I2C_STATE_sendingStart, I2C_STATE_dataTX, I2C_STATE_sendingRestart,
                    I2C_STATE_sendingStop, I2C_STATE_dataRX, I2C_STATE_ack}"

text \<open>The invariant the code keeps: the array has its 32 bytes; length and cursor are at
  most 32 and the pending read count at most 31; the cursor is bounded by the length in the
  transmitting states and by the pending read count in the receiving states.\<close>

definition buffer_invariant :: "driver \<Rightarrow> bool" where
  "buffer_invariant s \<longleftrightarrow>
     length (TRXBuffer s) = 32 \<and>
     TRXBufferLen s \<le> 32 \<and> TRXBufferCurrPos s \<le> 32 \<and> numRXBytes s \<le> 31 \<and>
     (i2c_state s \<in> {I2C_STATE_sendingStart, I2C_STATE_sendingRestart, I2C_STATE_dataTX}
        \<longrightarrow> TRXBufferCurrPos s \<le> TRXBufferLen s) \<and>
     (i2c_state s \<in> {I2C_STATE_dataRX, I2C_STATE_ack}
        \<longrightarrow> TRXBufferCurrPos s < numRXBytes s)"

text \<open>
  The calls the amended buffer invariant speaks about. The caller's array holds the bytes
  the call is told to use. For \<open>i2c_puts\<close> with \<open>len = 0\<close> the array holds a string of at
  most 30 bytes before its terminating zero. The sums \<^verbatim>\<open>2 + len\<close> and \<^verbatim>\<open>1 + len\<close> of the
  capacity checks do not wrap around, and \<open>i2c_getData\<close> is not asked for more bytes than
  the buffer has.
\<close>

fun in_contract :: "event \<Rightarrow> bool" where
  "in_contract (Puts a r d n) =
     (if n = 0 then (case strlen d of None \<Rightarrow> False | Some k \<Rightarrow> k \<le> 30)
      else n \<le> 0xFFFD \<and> unat n \<le> length d)"
| "in_contract (Gets a r n) = (n \<noteq> 0xFFFF)"
| "in_contract (GetData d n) = (unat n \<le> length d \<and> n \<le> 32)"
| "in_contract e = True"

text \<open>The number of payload bytes of an \<open>i2c_puts\<close> call: \<open>len\<close>, or the length of the
  string when \<open>len\<close> is 0.\<close>

definition puts_payload :: "u8 list \<Rightarrow> size_t \<Rightarrow> nat" where
  "puts_payload d n = (if n = 0 then (case strlen d of None \<Rightarrow> 0 | Some k \<Rightarrow> k) else unat n)"

fun puts_post :: "event \<Rightarrow> i2c_errors option \<Rightarrow> driver \<Rightarrow> bool" where
  "puts_post (Puts a r d n) res t =
     (res = Some I2C_ERR_noError \<longrightarrow>
        unat (TRXBufferLen t) = 2 + puts_payload d n \<and> 2 + puts_payload d n \<le> 32)"
| "puts_post e res t = True"

text \<open>What holds after every event of a sequence in contract.\<close>

fun step_post :: "event \<Rightarrow> i2c_errors option \<times> driver \<Rightarrow> bool" where
  "step_post e (res, t) = (buffer_invariant t \<and> puts_post e res t)"

text \<open>The calls that take a request or hand out its result, and the calls that run
  \<open>i2c_reset\<close> (\<open>i2c_init\<close> and \<open>i2c_enable\<close> end with it).\<close>

fun is_request :: "event \<Rightarrow> bool" where
  "is_request (Putc a r d) = True"
| "is_request (Puts a r d n) = True"
| "is_request (Getc a r) = True"
| "is_request (Gets a r n) = True"
| "is_request (GetData d n) = True"
| "is_request e = False"

fun is_admission :: "event \<Rightarrow> bool" where
  "is_admission (GetData d n) = False"
| "is_admission e = is_request e"

fun calls_reset :: "event \<Rightarrow> bool" where
  "calls_reset Reset = True"
| "calls_reset (Init brg slew pri) = True"
| "calls_reset Enable = True"
| "calls_reset e = False"

text \<open>What holds after an event while an error is latched: the error is still latched, and
  a request has returned \<^verbatim>\<open>I2C_ERR_inErrorState\<close>.\<close>

fun refused_while_latched :: "event \<Rightarrow> i2c_errors option \<times> driver \<Rightarrow> bool" where
  "refused_while_latched e (res, t) =
     (i2c_error t \<noteq> I2C_ERR_noError \<and> (is_request e \<longrightarrow> res = Some I2C_ERR_inErrorState))"

text \<open>The condition of the row of the transition table that turns a register read from
  its write phase to its read phase.\<close>

definition pivot_condition :: "driver \<Rightarrow> bool" where
  "pivot_condition s \<longleftrightarrow>
     i2c_state s = I2C_STATE_dataTX \<and> TRXBufferCurrPos s = TRXBufferLen s \<and>
     numRXBytes s \<noteq> 0 \<and> (TRXBuffer s ! 0) AND 0x01 = 0"

text \<open>
  The interrupts of a read of the bytes \<open>bs\<close>, once the driver is receiving: one interrupt
  for each received byte, and between two of them the interrupt that ends the
  acknowledge. \<open>sent_acked\<close> is the interrupt after a start condition or a transmitted
  byte that the slave has acknowledged. No interrupt of these reports a collision.
\<close>

definition sent_acked :: event where
  "sent_acked = Interrupt False False 0"

definition ack_done :: event where
  "ack_done = Interrupt False False 0"

definition received :: "u8 \<Rightarrow> event" where
  "received b = Interrupt False False b"

fun receive_events :: "u8 list \<Rightarrow> event list" where
  "receive_events [] = []"
| "receive_events [b] = [received b]"
| "receive_events (b # bs) = received b # ack_done # receive_events bs"

definition stop_done :: event where
  "stop_done = Interrupt False False 0"

text \<open>What a refused request must leave as it is: the buffer's bytes, cursor and length,
  and the engine state.\<close>

definition transaction_frame :: "driver \<Rightarrow> driver \<Rightarrow> bool" where
  "transaction_frame s t \<longleftrightarrow>
     TRXBuffer t = TRXBuffer s \<and> TRXBufferCurrPos t = TRXBufferCurrPos s \<and>
     TRXBufferLen t = TRXBufferLen s \<and> i2c_state t = i2c_state s"

section \<open>Properties\<close>

declare getData_loop.simps [simp del] puts_loop.simps [simp del]

lemmas macro_defs =
  waitUntilIdle_def i2c_write_def sendStartCondition_def sendReStartCondition_def
  sendStopCondition_def sendAck_def stopDueToError_def resetI2CInterruptFlag_def

lemmas isr_defs =
  I2CInterruptRoutine_def isr_start_def isr_dataTX_def isr_dataRX_def master_interrupt_def
  buf_get_def buf_set_def

lemmas call_defs =
  i2c_putc_def i2c_puts_def i2c_getc_def i2c_gets_def i2c_getData_def i2c_reset_def
  i2c_init_def i2c_disable_def i2c_enable_def I2C_TRX_BUFFER_SIZE_def

lemmas eval_defs =
  macro_defs isr_defs call_defs boot_def power_on_def sent_acked_def ack_done_def
  received_def

subsection \<open>Requests while a transaction is running\<close>

text \<open>
  Claim C5. A request (\<open>i2c_putc\<close>, \<open>i2c_puts\<close>, \<open>i2c_getc\<close>, \<open>i2c_gets\<close>) made while no
  error is latched and the state is neither idle nor disabled returns
  \<^verbatim>\<open>I2C_ERR_busy\<close> and leaves the buffer's bytes, its cursor, its length and the engine state
  as they were.
\<close>

theorem busy_rejection_frame:
  assumes "i2c_error s = I2C_ERR_noError"
    and "i2c_state s \<noteq> I2C_STATE_idle"
    and "i2c_state s \<noteq> I2C_STATE_disabled"
  shows "(\<exists>t. i2c_putc a r d s = (I2C_ERR_busy, t) \<and> transaction_frame s t) \<and>
         (\<exists>t. i2c_puts a r ds n s = Some (I2C_ERR_busy, t) \<and> transaction_frame s t) \<and>
         (\<exists>t. i2c_getc a r s = (I2C_ERR_busy, t) \<and> transaction_frame s t) \<and>
         (\<exists>t. i2c_gets a r n s = (I2C_ERR_busy, t) \<and> transaction_frame s t)"
  using assms
  by (simp add: i2c_putc_def i2c_puts_def i2c_getc_def i2c_gets_def transaction_frame_def)

theorem busy_rejection_frame_witness:
  "i2c_error (snd (i2c_getc 0x50 0x10 boot)) = I2C_ERR_noError \<and>
   i2c_state (snd (i2c_getc 0x50 0x10 boot)) = I2C_STATE_sendingStart \<and>
   (\<exists>t. i2c_putc 0x51 0x20 0xAA (snd (i2c_getc 0x50 0x10 boot)) = (I2C_ERR_busy, t) \<and>
        transaction_frame (snd (i2c_getc 0x50 0x10 boot)) t)"
proof -
  have e: "i2c_error (snd (i2c_getc 0x50 0x10 boot)) = I2C_ERR_noError"
    by (simp add: eval_defs)
  have st: "i2c_state (snd (i2c_getc 0x50 0x10 boot)) = I2C_STATE_sendingStart"
    by (simp add: eval_defs)
  from st have n1: "i2c_state (snd (i2c_getc 0x50 0x10 boot)) \<noteq> I2C_STATE_idle"
    and n2: "i2c_state (snd (i2c_getc 0x50 0x10 boot)) \<noteq> I2C_STATE_disabled"
    by simp_all
  from busy_rejection_frame [OF e n1 n2, of "0x51" "0x20" "0xAA"] e st
  show ?thesis by blast
qed

subsection \<open>The interrupt routine\<close>

text \<open>
  Claim C8. Whatever the engine state is (the error state and the disabled state
  included), the interrupt routine entered with the collision bit set puts the engine
  into the error state with \<^verbatim>\<open>I2C_ERR_collisionDetected\<close> and does nothing that depends on the
  state: besides these two variables only the interrupt flag is written.
\<close>

theorem collision_preempts:
  assumes "BCL s"
  shows "I2CInterruptRoutine s =
           Some (s\<lparr>i2c_state := I2C_STATE_error, i2c_error := I2C_ERR_collisionDetected,
                   MI2CIF := False\<rparr>)"
  using assms by (simp add: I2CInterruptRoutine_def resetI2CInterruptFlag_def)

theorem collision_preempts_witness:
  "BCL ((i2c_disable boot)\<lparr>BCL := True\<rparr>) \<and>
   map_option i2c_state (I2CInterruptRoutine ((i2c_disable boot)\<lparr>BCL := True\<rparr>)) =
     Some I2C_STATE_error \<and>
   map_option i2c_error (I2CInterruptRoutine ((i2c_disable boot)\<lparr>BCL := True\<rparr>)) =
     Some I2C_ERR_collisionDetected"
  using collision_preempts [of "(i2c_disable boot)\<lparr>BCL := True\<rparr>"] by simp

lemma or_one_bit0: "(x OR 1) AND 1 = (1 :: u8)"
  by (simp add: bit_eq_iff bit_simps)

text \<open>
  Claim C7, amended. In the transmitting state with the cursor at the length, a pending
  read count other than 0 and the direction bit of byte 0 still 0, an interrupt that
  reports no collision and an acknowledged byte makes the routine set the cursor to 0, set
  the direction bit of byte 0, set the length to 1, start a restart condition and enter the
  state \<^verbatim>\<open>I2C_STATE_sendingRestart\<close>.
\<close>

theorem pivot_to_read:
  assumes "pivot_condition s" and "\<not> BCL s" and "\<not> ACKSTAT s"
    and "length (TRXBuffer s) = 32"
  shows "\<exists>t. I2CInterruptRoutine s = Some t \<and>
           TRXBufferCurrPos t = 0 \<and>
           TRXBuffer t = (TRXBuffer s)[0 := (TRXBuffer s ! 0) OR 0x01] \<and>
           (TRXBuffer t ! 0) AND 0x01 = 1 \<and>
           TRXBufferLen t = 1 \<and>
           RSEN t \<and>
           i2c_state t = I2C_STATE_sendingRestart"
  using assms
  by (auto simp add: pivot_condition_def I2CInterruptRoutine_def isr_dataTX_def macro_defs
      or_one_bit0)

theorem pivot_to_read_witness:
  "pivot_condition (the (run [Gets 0x50 0x10 2, sent_acked, sent_acked] boot)) \<and>
   (\<exists>t. I2CInterruptRoutine (the (run [Gets 0x50 0x10 2, sent_acked, sent_acked] boot)) = Some t \<and>
        TRXBufferCurrPos t = 0 \<and> TRXBufferLen t = 1 \<and> RSEN t \<and>
        (TRXBuffer t ! 0) AND 0x01 = 1 \<and>
        i2c_state t = I2C_STATE_sendingRestart)"
proof -
  let ?s = "the (run [Gets 0x50 0x10 2, sent_acked, sent_acked] boot)"
  have p: "pivot_condition ?s"
    by (simp add: pivot_condition_def eval_defs)
  have b: "\<not> BCL ?s" and a: "\<not> ACKSTAT ?s" and l: "length (TRXBuffer ?s) = 32"
    by (simp_all add: eval_defs)
  from pivot_to_read [OF p b a l] p show ?thesis by blast
qed

text \<open>The claim as it was written fails when the slave has not acknowledged the byte, and
  when the interrupt reports a collision: the routine then latches the error and starts no
  restart condition.\<close>

theorem pivot_counterexample:
  "map_option pivot_condition (run [Gets 0x50 0x10 2, sent_acked, sent_acked] boot) = Some True \<and>
   map_option i2c_state
     (run [Gets 0x50 0x10 2, sent_acked, sent_acked, Interrupt False True 0] boot) =
     Some I2C_STATE_error \<and>
   map_option RSEN
     (run [Gets 0x50 0x10 2, sent_acked, sent_acked, Interrupt False True 0] boot) =
     Some False \<and>
   map_option i2c_state
     (run [Gets 0x50 0x10 2, sent_acked, sent_acked, Interrupt True False 0] boot) =
     Some I2C_STATE_error"
  by (simp add: pivot_condition_def eval_defs)

subsection \<open>Busy\<close>

text \<open>
  Claim C10. \<open>i2c_busy\<close> returns true exactly when the engine state is neither idle nor
  the error state; in the error state it returns false.
\<close>

theorem busy_iff:
  "(i2c_busy s \<longleftrightarrow> i2c_state s \<noteq> I2C_STATE_idle \<and> i2c_state s \<noteq> I2C_STATE_error) \<and>
   (i2c_state s = I2C_STATE_error \<longrightarrow> \<not> i2c_busy s)"
  by (simp add: i2c_busy_def)

theorem busy_iff_witness:
  "i2c_state (the (run [Putc 0x50 0x10 0xAA, Interrupt True False 0] boot)) = I2C_STATE_error \<and>
   \<not> i2c_busy (the (run [Putc 0x50 0x10 0xAA, Interrupt True False 0] boot)) \<and>
   i2c_busy (the (run [Putc 0x50 0x10 0xAA] boot))"
proof -
  have e: "i2c_state (the (run [Putc 0x50 0x10 0xAA, Interrupt True False 0] boot)) =
             I2C_STATE_error"
    by (simp add: eval_defs)
  have t: "i2c_state (the (run [Putc 0x50 0x10 0xAA] boot)) = I2C_STATE_sendingStart"
    by (simp add: eval_defs)
  from busy_iff [of "the (run [Putc 0x50 0x10 0xAA, Interrupt True False 0] boot)"]
    busy_iff [of "the (run [Putc 0x50 0x10 0xAA] boot)"] e t
  show ?thesis by simp
qed

subsection \<open>Retrieving data\<close>

text \<open>The copy loop of \<open>i2c_getData\<close> writes the first \<open>len\<close> bytes of the buffer over the
  first \<open>len\<close> bytes of the caller's array, when both have that many bytes.\<close>

lemma getData_loop_nth:
  "unat len \<le> length buf \<Longrightarrow> unat len \<le> length data \<Longrightarrow>
   \<exists>r. getData_loop buf len i data = Some r \<and> length r = length data \<and>
       (\<forall>j < length data. r ! j = (if unat i \<le> j \<and> j < unat len then buf ! j else data ! j))"
proof (induction buf len i data rule: getData_loop.induct)
  case (1 buf len i data)
  show ?case
  proof (cases "i < len")
    case False
    then have "unat len \<le> unat i" by (simp add: word_less_nat_alt)
    with False show ?thesis by (subst getData_loop.simps) auto
  next
    case True
    then have lt: "unat i < unat len" by (simp add: word_less_nat_alt)
    from True have suc: "unat (i + 1) = Suc (unat i)" by unat_arith
    from lt "1.prems" have g: "buf_get buf (unat i) = Some (buf ! unat i)"
      and st: "buf_set data (unat i) (buf ! unat i) = Some (data[unat i := buf ! unat i])"
      by (simp_all add: buf_get_def buf_set_def)
    from "1.IH" [OF True g st] "1.prems"
    obtain r where r: "getData_loop buf len (i + 1) (data[unat i := buf ! unat i]) = Some r"
      and lr: "length r = length data"
      and nr: "\<forall>j < length data. r ! j =
                 (if unat (i + 1) \<le> j \<and> j < unat len then buf ! j
                  else (data[unat i := buf ! unat i]) ! j)"
      by auto
    have "getData_loop buf len i data = Some r"
      using True g st r by (subst getData_loop.simps) simp
    moreover have "\<forall>j < length data. r ! j =
        (if unat i \<le> j \<and> j < unat len then buf ! j else data ! j)"
      using nr suc lt by (auto simp add: nth_list_update not_less_eq_eq dest: le_antisym)
    ultimately show ?thesis using lr by blast
  qed
qed

lemma getData_loop_take:
  assumes "unat len \<le> length buf" and "unat len \<le> length data"
  shows "getData_loop buf len 0 data = Some (take (unat len) buf @ drop (unat len) data)"
proof -
  from getData_loop_nth [OF assms, of 0]
  obtain r where r: "getData_loop buf len 0 data = Some r"
    and lr: "length r = length data"
    and nr: "\<forall>j < length data. r ! j = (if j < unat len then buf ! j else data ! j)"
    by auto
  have "r = take (unat len) buf @ drop (unat len) data"
  proof (rule nth_equalityI)
    show "length r = length (take (unat len) buf @ drop (unat len) data)"
      using lr assms by simp
  next
    fix j assume "j < length r"
    with lr nr assms show "r ! j = (take (unat len) buf @ drop (unat len) data) ! j"
      by (auto simp add: nth_append)
  qed
  with r show ?thesis by simp
qed

text \<open>What a successful \<open>i2c_getData\<close> does: it copies \<open>len\<close> bytes, the size it was given for
  the destination, and leaves the driver as it was.\<close>

lemma i2c_getData_success:
  assumes "i2c_error s = I2C_ERR_noError" and "i2c_state s = I2C_STATE_idle"
    and "TRXBufferCurrPos s \<noteq> 0" and "TRXBufferCurrPos s \<le> len"
    and "unat len \<le> length (TRXBuffer s)" and "unat len \<le> length data"
  shows "i2c_getData data len s =
           Some (I2C_ERR_noError, take (unat len) (TRXBuffer s) @ drop (unat len) data, s)"
  using assms by (auto simp add: i2c_getData_def getData_loop_take)

text \<open>
  Claim C2. The code does not do what the claim says. After \<open>i2c_getc\<close> has received the one
  byte \<open>0xAB\<close> the cursor is 1; \<open>i2c_getData\<close> called with a two-byte array and \<open>len = 2\<close>
  returns success and has written both bytes of the array: the received byte, and the
  register byte \<open>0x10\<close> that the request left at index 1 of the buffer. With \<open>len = 33\<close> the
  loop reads behind the end of the buffer.
\<close>

theorem getData_copies_len_bytes:
  "i2c_state (the (run [Getc 0x50 0x10, sent_acked, sent_acked, sent_acked, sent_acked,
                        sent_acked, received 0xAB, stop_done] boot)) = I2C_STATE_idle \<and>
   i2c_error (the (run [Getc 0x50 0x10, sent_acked, sent_acked, sent_acked, sent_acked,
                        sent_acked, received 0xAB, stop_done] boot)) = I2C_ERR_noError \<and>
   TRXBufferCurrPos (the (run [Getc 0x50 0x10, sent_acked, sent_acked, sent_acked, sent_acked,
                        sent_acked, received 0xAB, stop_done] boot)) = 1 \<and>
   map_option (fst \<circ> snd)
     (i2c_getData [0xFF, 0xFF] 2
        (the (run [Getc 0x50 0x10, sent_acked, sent_acked, sent_acked, sent_acked,
                   sent_acked, received 0xAB, stop_done] boot))) = Some [0xAB, 0x10] \<and>
   map_option fst
     (i2c_getData [0xFF, 0xFF] 2
        (the (run [Getc 0x50 0x10, sent_acked, sent_acked, sent_acked, sent_acked,
                   sent_acked, received 0xAB, stop_done] boot))) = Some I2C_ERR_noError \<and>
   i2c_getData (replicate 33 0xFF) 33
        (the (run [Getc 0x50 0x10, sent_acked, sent_acked, sent_acked, sent_acked,
                   sent_acked, received 0xAB, stop_done] boot)) = None"
  by (simp add: eval_defs stop_done_def getData_loop.simps)

subsection \<open>Disable and enable\<close>

text \<open>
  Claim C3, amended. After \<open>i2c_disable\<close> and \<open>i2c_enable\<close> the driver is not busy.
  \<open>i2c_enable\<close> leaves the cursor and the buffer as the interrupted transaction left them, so
  \<open>i2c_getData\<close> fails with \<^verbatim>\<open>I2C_ERR_nothingReceived\<close> when that cursor was 0; when it was
  not, the call fails with \<^verbatim>\<open>I2C_ERR_RXBufferOverflow\<close> for a \<open>len\<close> below the cursor and
  otherwise succeeds, and the first cursor bytes of the destination are then the first
  cursor bytes that the transaction left in the buffer. Nothing is said here about the
  bytes of the destination behind them.
\<close>

theorem disable_enable_result:
  "\<not> i2c_busy (i2c_enable (i2c_disable s)) \<and>
   (TRXBufferCurrPos s = 0 \<longrightarrow>
      i2c_getData data len (i2c_enable (i2c_disable s)) =
        Some (I2C_ERR_nothingReceived, data,
              (i2c_enable (i2c_disable s))\<lparr>i2c_error := I2C_ERR_nothingReceived\<rparr>)) \<and>
   (TRXBufferCurrPos s \<noteq> 0 \<and> len < TRXBufferCurrPos s \<longrightarrow>
      i2c_getData data len (i2c_enable (i2c_disable s)) =
        Some (I2C_ERR_RXBufferOverflow, data,
              (i2c_enable (i2c_disable s))\<lparr>i2c_error := I2C_ERR_RXBufferOverflow\<rparr>)) \<and>
   (TRXBufferCurrPos s \<noteq> 0 \<and> TRXBufferCurrPos s \<le> len \<and>
    unat len \<le> length (TRXBuffer s) \<and> unat len \<le> length data \<longrightarrow>
      (\<exists>data'. i2c_getData data len (i2c_enable (i2c_disable s)) =
                 Some (I2C_ERR_noError, data', i2c_enable (i2c_disable s)) \<and>
               take (unat (TRXBufferCurrPos s)) data' =
                 take (unat (TRXBufferCurrPos s)) (TRXBuffer s)))"
proof -
  let ?t = "i2c_enable (i2c_disable s)"
  have t: "i2c_state ?t = I2C_STATE_idle" "i2c_error ?t = I2C_ERR_noError"
    "TRXBufferCurrPos ?t = TRXBufferCurrPos s" "TRXBuffer ?t = TRXBuffer s"
    by (simp_all add: i2c_enable_def i2c_disable_def i2c_init_def i2c_reset_def)
  have busy: "\<not> i2c_busy ?t"
    using t(1) by (simp add: i2c_busy_def)
  have none: "TRXBufferCurrPos s = 0 \<longrightarrow>
      i2c_getData data len ?t =
        Some (I2C_ERR_nothingReceived, data, ?t\<lparr>i2c_error := I2C_ERR_nothingReceived\<rparr>)"
    using t by (simp add: i2c_getData_def)
  have small: "TRXBufferCurrPos s \<noteq> 0 \<and> len < TRXBufferCurrPos s \<longrightarrow>
      i2c_getData data len ?t =
        Some (I2C_ERR_RXBufferOverflow, data, ?t\<lparr>i2c_error := I2C_ERR_RXBufferOverflow\<rparr>)"
    using t by (simp add: i2c_getData_def)
  have fits: "TRXBufferCurrPos s \<noteq> 0 \<and> TRXBufferCurrPos s \<le> len \<and>
      unat len \<le> length (TRXBuffer s) \<and> unat len \<le> length data \<longrightarrow>
      (\<exists>data'. i2c_getData data len ?t = Some (I2C_ERR_noError, data', ?t) \<and>
               take (unat (TRXBufferCurrPos s)) data' =
                 take (unat (TRXBufferCurrPos s)) (TRXBuffer s))"
  proof (intro impI)
    assume a: "TRXBufferCurrPos s \<noteq> 0 \<and> TRXBufferCurrPos s \<le> len \<and>
      unat len \<le> length (TRXBuffer s) \<and> unat len \<le> length data"
    then have le: "unat (TRXBufferCurrPos s) \<le> unat len"
      by (simp add: word_le_nat_alt)
    from a t have "i2c_getData data len ?t =
        Some (I2C_ERR_noError, take (unat len) (TRXBuffer ?t) @ drop (unat len) data, ?t)"
      by (intro i2c_getData_success) simp_all
    moreover from a le
    have "take (unat (TRXBufferCurrPos s))
            (take (unat len) (TRXBuffer ?t) @ drop (unat len) data) =
          take (unat (TRXBufferCurrPos s)) (TRXBuffer s)"
      using t(4) by (simp add: min_absorb2)
    ultimately show "\<exists>data'. i2c_getData data len ?t = Some (I2C_ERR_noError, data', ?t) \<and>
               take (unat (TRXBufferCurrPos s)) data' =
                 take (unat (TRXBufferCurrPos s)) (TRXBuffer s)"
      by blast
  qed
  from busy none small fits show ?thesis by blast
qed

theorem disable_enable_result_witness:
  "transaction_active (the (run [Putc 0x50 0x10 0xAA] boot)) \<and>
   TRXBufferCurrPos (the (run [Putc 0x50 0x10 0xAA] boot)) = 0 \<and>
   \<not> i2c_busy (i2c_enable (i2c_disable (the (run [Putc 0x50 0x10 0xAA] boot)))) \<and>
   map_option fst
     (i2c_getData [0] 1 (i2c_enable (i2c_disable (the (run [Putc 0x50 0x10 0xAA] boot))))) =
     Some I2C_ERR_nothingReceived \<and>
   TRXBufferCurrPos (the (run [Putc 0x50 0x10 0xAA, sent_acked] boot)) = 1 \<and>
   (\<exists>data'. i2c_getData [0, 0] 2
               (i2c_enable (i2c_disable (the (run [Putc 0x50 0x10 0xAA, sent_acked] boot)))) =
               Some (I2C_ERR_noError, data',
                     i2c_enable (i2c_disable (the (run [Putc 0x50 0x10 0xAA, sent_acked] boot)))) \<and>
             take 1 data' = [0xA0])"
proof -
  let ?s = "the (run [Putc 0x50 0x10 0xAA] boot)"
  let ?s' = "the (run [Putc 0x50 0x10 0xAA, sent_acked] boot)"
  have a: "transaction_active ?s"
    by (simp add: eval_defs transaction_active_def)
  have c: "TRXBufferCurrPos ?s = 0"
    by (simp add: eval_defs)
  have c': "TRXBufferCurrPos ?s' = 1"
    by (simp add: eval_defs)
  have n': "TRXBuffer ?s' ! 0 = 0xA0" and l': "length (TRXBuffer ?s') = 32"
    by (simp_all add: eval_defs)
  from l' have "take 1 (TRXBuffer ?s') = [TRXBuffer ?s' ! 0]"
    by (simp add: take_Suc_conv_app_nth)
  with n' have b': "take 1 (TRXBuffer ?s') = [0xA0]"
    by simp
  from disable_enable_result [of ?s "[0]" 1] c
  have first: "\<not> i2c_busy (i2c_enable (i2c_disable ?s))"
    "map_option fst (i2c_getData [0] 1 (i2c_enable (i2c_disable ?s))) =
       Some I2C_ERR_nothingReceived"
    by simp_all
  from disable_enable_result [of ?s' "[0, 0]" 2] c' b' l'
  have second: "\<exists>data'. i2c_getData [0, 0] 2 (i2c_enable (i2c_disable ?s')) =
               Some (I2C_ERR_noError, data', i2c_enable (i2c_disable ?s')) \<and>
             take 1 data' = [0xA0]"
    by (simp add: word_le_nat_alt)
  from a c c' first second show ?thesis by blast
qed

text \<open>The claim as it was written fails for a transaction that is interrupted after its
  first byte: \<open>i2c_getData\<close> then succeeds and hands out the address byte \<open>0xA0\<close> of the
  aborted write.\<close>

theorem disable_enable_counterexample:
  "transaction_active (the (run [Putc 0x50 0x10 0xAA, sent_acked] boot)) \<and>
   i2c_getData [0] 1 (the (run [Putc 0x50 0x10 0xAA, sent_acked, Disable, Enable] boot)) =
     Some (I2C_ERR_noError, [0xA0],
           the (run [Putc 0x50 0x10 0xAA, sent_acked, Disable, Enable] boot))"
  by (simp add: eval_defs transaction_active_def getData_loop.simps)

subsection \<open>Faults without the stay-in-error policy\<close>

text \<open>
  Claim C4. The code does not do what the claim says. With \<^verbatim>\<open>i2c_stayInErrorState\<close> false,
  a collision during a write leaves the engine in the error state, with no stop condition
  started, and later interrupts leave it there; so does a read request that is too long
  for the buffer. Only the faults that go through \<^verbatim>\<open>stopDueToError\<close> follow the policy: after
  a missing acknowledge the routine starts a stop condition and the next interrupt makes
  the engine idle, with the error still latched.
\<close>

theorem faults_ignoring_policy:
  "map_option (map (i2c_state \<circ> snd))
     (exec [Set_stayInErrorState False, Putc 0x50 0x10 0xAA, sent_acked,
            Interrupt True False 0, stop_done] boot) =
     Some [I2C_STATE_idle, I2C_STATE_sendingStart, I2C_STATE_dataTX, I2C_STATE_error,
           I2C_STATE_error] \<and>
   map_option (map (PEN \<circ> snd))
     (exec [Set_stayInErrorState False, Putc 0x50 0x10 0xAA, sent_acked,
            Interrupt True False 0, stop_done] boot) =
     Some [False, False, False, False, False] \<and>
   map_option (map (i2c_state \<circ> snd))
     (exec [Set_stayInErrorState False, Gets 0x50 0x10 32, stop_done] boot) =
     Some [I2C_STATE_idle, I2C_STATE_error, I2C_STATE_error] \<and>
   map_option (map (i2c_state \<circ> snd))
     (exec [Set_stayInErrorState False, Putc 0x50 0x10 0xAA, sent_acked,
            Interrupt False True 0, stop_done] boot) =
     Some [I2C_STATE_idle, I2C_STATE_sendingStart, I2C_STATE_dataTX, I2C_STATE_sendingStop,
           I2C_STATE_idle] \<and>
   map_option (map (i2c_error \<circ> snd))
     (exec [Set_stayInErrorState False, Putc 0x50 0x10 0xAA, sent_acked,
            Interrupt False True 0, stop_done] boot) =
     Some [I2C_ERR_noError, I2C_ERR_noError, I2C_ERR_noError, I2C_ERR_slaveNACK,
           I2C_ERR_slaveNACK]"
  by (simp add: eval_defs stop_done_def)

subsection \<open>The buffer invariant\<close>

text \<open>Facts about 16-bit unsigned arithmetic, read over the natural numbers.\<close>

lemma u16: "unat (n :: 16 word) < 65536"
  using unsigned_less [of n, where 'a = nat] by simp

lemmas word_nat_simps = word_le_nat_alt word_less_nat_alt unat_word_ariths word_unat_eq_iff

lemma gets_capacity:
  "\<not> 32 < 1 + n \<Longrightarrow> n \<noteq> 0xFFFF \<Longrightarrow> n \<le> 31"
  for n :: "16 word"
  using u16 [of n] by (simp add: word_nat_simps)

lemma puts_capacity:
  "\<not> 32 < 2 + n \<Longrightarrow> n \<le> 0xFFFD \<Longrightarrow> unat n \<le> 30 \<and> unat (2 + n) = 2 + unat n \<and> 2 + n \<le> 32"
  for n :: "16 word"
  using u16 [of n] by (simp add: word_nat_simps)

lemma cursor_below_length:
  "c \<le> l \<Longrightarrow> c \<noteq> l \<Longrightarrow> l \<le> 32 \<Longrightarrow> unat c < 32 \<and> c + 1 \<le> l \<and> c + 1 \<le> 32"
  for c l :: "16 word"
  using u16 [of c] u16 [of l] by (simp add: word_nat_simps)

lemma cursor_below_count:
  "c < n \<Longrightarrow> n \<le> 31 \<Longrightarrow> unat c < 32 \<and> c + 1 \<le> 32 \<and> (c + 1 \<noteq> n \<longrightarrow> c + 1 < n)"
  for c n :: "16 word"
  using u16 [of c] u16 [of n] by (simp add: word_nat_simps)

text \<open>Every function of the driver keeps the invariant, and makes no access outside the
  buffer when it is entered with it.\<close>

lemma isr_keeps_invariant:
  assumes "buffer_invariant s"
  shows "\<exists>t. I2CInterruptRoutine s = Some t \<and> buffer_invariant t"
proof (cases "BCL s")
  case True
  with assms show ?thesis
    by (simp add: I2CInterruptRoutine_def resetI2CInterruptFlag_def buffer_invariant_def)
next
  case False
  show ?thesis
  proof (cases "i2c_state s")
    case I2C_STATE_idle
    with False assms show ?thesis
      by (simp add: I2CInterruptRoutine_def resetI2CInterruptFlag_def buffer_invariant_def)
  next
    case I2C_STATE_sendingStart
    with False assms show ?thesis
      using cursor_below_length [of "TRXBufferCurrPos s" "TRXBufferLen s"]
      by (auto simp add: isr_defs macro_defs buffer_invariant_def Let_def)
  next
    case I2C_STATE_sendingRestart
    with False assms show ?thesis
      using cursor_below_length [of "TRXBufferCurrPos s" "TRXBufferLen s"]
      by (auto simp add: isr_defs macro_defs buffer_invariant_def Let_def)
  next
    case I2C_STATE_dataTX
    with False assms show ?thesis
      using cursor_below_length [of "TRXBufferCurrPos s" "TRXBufferLen s"]
      by (auto simp add: isr_defs macro_defs buffer_invariant_def Let_def word_neq_0_conv)
  next
    case I2C_STATE_sendingStop
    with False assms show ?thesis
      by (simp add: I2CInterruptRoutine_def resetI2CInterruptFlag_def buffer_invariant_def)
  next
    case I2C_STATE_dataRX
    with False assms show ?thesis
      using cursor_below_count [of "TRXBufferCurrPos s" "numRXBytes s"]
      by (auto simp add: isr_defs macro_defs buffer_invariant_def Let_def)
  next
    case I2C_STATE_ack
    with False assms show ?thesis
      by (simp add: isr_defs macro_defs buffer_invariant_def)
  next
    case I2C_STATE_error
    with False assms show ?thesis
      by (simp add: I2CInterruptRoutine_def resetI2CInterruptFlag_def buffer_invariant_def)
  next
    case I2C_STATE_disabled
    with False assms show ?thesis
      by (simp add: I2CInterruptRoutine_def resetI2CInterruptFlag_def buffer_invariant_def)
  qed
qed


lemma strlen_less: "strlen d = Some k \<Longrightarrow> k < length d"
  by (induction d arbitrary: k) (auto split: if_splits)

lemma puts_loop_some:
  "unat n \<le> length d \<Longrightarrow> unat n + 2 \<le> length buf \<Longrightarrow> length buf < 65536 \<Longrightarrow>
   \<exists>b. puts_loop d n i buf = Some b \<and> length b = length buf"
proof (induction d n i buf rule: puts_loop.induct)
  case (1 data len i buf)
  show ?case
  proof (cases "i < len")
    case False
    then show ?thesis by (subst puts_loop.simps) simp
  next
    case True
    then have lt: "unat i < unat len" by (simp add: word_less_nat_alt)
    with "1.prems" have i2: "unat (i + 2) = unat i + 2"
      by (simp add: unat_word_ariths)
    from lt "1.prems" have g: "buf_get data (unat i) = Some (data ! unat i)"
      by (simp add: buf_get_def)
    from lt i2 "1.prems"
    have st: "buf_set buf (unat (i + 2)) (data ! unat i) =
                Some (buf[unat (i + 2) := data ! unat i])"
      by (simp add: buf_set_def)
    from "1.IH" [OF True g st] "1.prems"
    obtain b where "puts_loop data len (i + 1) (buf[unat (i + 2) := data ! unat i]) = Some b"
      and "length b = length buf"
      by auto
    with True g st show ?thesis by (subst puts_loop.simps) simp
  qed
qed

lemma putc_keeps_invariant:
  "buffer_invariant s \<Longrightarrow> buffer_invariant (snd (i2c_putc a r d s))"
  by (simp add: i2c_putc_def buffer_invariant_def macro_defs I2C_TRX_BUFFER_SIZE_def Let_def)

lemma getc_keeps_invariant:
  "buffer_invariant s \<Longrightarrow> buffer_invariant (snd (i2c_getc a r s))"
  by (simp add: i2c_getc_def buffer_invariant_def macro_defs I2C_TRX_BUFFER_SIZE_def Let_def)

lemma gets_keeps_invariant:
  "buffer_invariant s \<Longrightarrow> n \<noteq> 0xFFFF \<Longrightarrow> buffer_invariant (snd (i2c_gets a r n s))"
  using gets_capacity [of n]
  by (simp add: i2c_gets_def buffer_invariant_def macro_defs I2C_TRX_BUFFER_SIZE_def Let_def)

lemma puts_keeps_invariant:
  assumes "buffer_invariant s" and "in_contract (Puts a r d n)"
  shows "\<exists>e t. i2c_puts a r d n s = Some (e, t) \<and> buffer_invariant t \<and>
           puts_post (Puts a r d n) (Some e) t"
proof (cases "i2c_error s = I2C_ERR_noError \<and> i2c_state s = I2C_STATE_idle \<and>
              \<not> I2C_TRX_BUFFER_SIZE < 2 + n")
  case False
  with assms(1) show ?thesis
    by (auto simp add: i2c_puts_def buffer_invariant_def Let_def)
next
  case True
  define k where "k = puts_payload d n"
  define n' :: size_t where "n' = word_of_nat k"
  from assms(2) True have k30: "k \<le> 30" and kd: "k \<le> length d"
    and sel: "(if n = 0 then map_option word_of_nat (strlen d) else Some n) = Some n'"
    using puts_capacity [of n] strlen_less [of d]
    by (auto simp add: k_def n'_def puts_payload_def I2C_TRX_BUFFER_SIZE_def
        split: option.splits if_splits)
  from k30 have un: "unat n' = k"
    by (simp add: n'_def unat_of_nat)
  with k30 have sum: "unat (2 + n') = 2 + k" and le: "2 + n' \<le> 32"
    by (simp_all add: word_nat_simps)
  let ?buf = "(TRXBuffer s)[0 := push_bit 1 a AND 0xfe, 1 := r]"
  from assms(1) have len: "length ?buf = 32"
    by (simp add: buffer_invariant_def)
  from puts_loop_some [of n' d ?buf 0] un k30 kd len
  obtain b where b: "puts_loop d n' 0 ?buf = Some b" and lb: "length b = 32"
    by auto
  from True sel b lb le sum k30 assms(1) show ?thesis
    by (simp add: i2c_puts_def Let_def buffer_invariant_def macro_defs k_def)
qed

lemma getData_keeps_invariant:
  assumes "buffer_invariant s" and "unat n \<le> length d" and "n \<le> 32"
  shows "\<exists>e d' t. i2c_getData d n s = Some (e, d', t) \<and> buffer_invariant t"
proof -
  from assms have "unat n \<le> length (TRXBuffer s)"
    by (simp add: buffer_invariant_def word_le_nat_alt)
  with assms show ?thesis
    by (auto simp add: i2c_getData_def getData_loop_take buffer_invariant_def)
qed

lemma interrupt_keeps_invariant:
  assumes "buffer_invariant s"
  shows "\<exists>t. master_interrupt bcl ack rcv s = Some t \<and> buffer_invariant t"
proof -
  from assms
  have "buffer_invariant (s\<lparr>BCL := bcl, ACKSTAT := ack, I2CRCV := rcv, MI2CIF := True\<rparr>)"
    by (simp add: buffer_invariant_def)
  then show ?thesis
    unfolding master_interrupt_def by (rule isr_keeps_invariant)
qed

lemma step_keeps_invariant:
  assumes "buffer_invariant s" and "in_contract e"
  shows "\<exists>p. step e s = Some p \<and> step_post e p"
proof (cases e)
  case (Putc a r d)
  with assms show ?thesis by (simp add: putc_keeps_invariant)
next
  case (Puts a r d n)
  with assms puts_keeps_invariant [of s a r d n]
  obtain c t where "i2c_puts a r d n s = Some (c, t)" and "buffer_invariant t"
    and "puts_post (Puts a r d n) (Some c) t"
    by blast
  with Puts show ?thesis by simp
next
  case (Getc a r)
  with assms show ?thesis by (simp add: getc_keeps_invariant)
next
  case (Gets a r n)
  with assms show ?thesis by (simp add: gets_keeps_invariant)
next
  case (GetData d n)
  with assms getData_keeps_invariant [of s n d] show ?thesis by auto
next
  case Reset
  with assms show ?thesis by (simp add: i2c_reset_def buffer_invariant_def)
next
  case (Init brg slew pri)
  with assms show ?thesis by (simp add: i2c_init_def i2c_reset_def buffer_invariant_def)
next
  case Disable
  with assms show ?thesis by (simp add: i2c_disable_def buffer_invariant_def)
next
  case Enable
  with assms show ?thesis
    by (simp add: i2c_enable_def i2c_init_def i2c_reset_def buffer_invariant_def)
next
  case (Set_stayInErrorState b)
  with assms show ?thesis by (simp add: buffer_invariant_def)
next
  case (Interrupt bcl ack rcv)
  with assms interrupt_keeps_invariant [of s bcl ack rcv] show ?thesis by auto
qed

text \<open>
  Claim C1, amended. Take any state in which the invariant \<open>buffer_invariant\<close> holds (the
  state after \<open>i2c_init\<close> is one) and any sequence of calls and interrupts in contract. Then
  no access leaves the buffer, and after every event: the length and the cursor are at most
  32, the pending read count is at most 31, the cursor is at most the length in the states
  \<^verbatim>\<open>sendingStart\<close>, \<^verbatim>\<open>sendingRestart\<close> and \<^verbatim>\<open>dataTX\<close>, and it is below the pending read count
  in the states \<^verbatim>\<open>dataRX\<close> and \<^verbatim>\<open>ack\<close>; and an \<open>i2c_puts\<close> that has returned success has set
  the length to 2 plus the number of payload bytes, which is at most 32.
\<close>

theorem buffer_invariant_kept:
  assumes "buffer_invariant s" and "list_all in_contract es"
  shows "\<exists>tr. exec es s = Some tr \<and> list_all2 step_post es tr"
  using assms
proof (induction es arbitrary: s)
  case Nil
  then show ?case by simp
next
  case (Cons e es)
  from Cons.prems step_keeps_invariant [of s e]
  obtain r t where st: "step e s = Some (r, t)" and post: "step_post e (r, t)"
    by auto
  from post have "buffer_invariant t" by simp
  with Cons.IH [of t] Cons.prems
  obtain tr where "exec es t = Some tr" and "list_all2 step_post es tr"
    by auto
  with st post show ?case by simp
qed

theorem buffer_invariant_kept_witness:
  "buffer_invariant boot \<and>
   list_all in_contract
     [Puts 0x50 0x10 [0x48, 0x69, 0] 0, sent_acked, sent_acked, sent_acked, sent_acked,
      sent_acked, stop_done,
      Gets 0x50 0x10 2, sent_acked, sent_acked, sent_acked, sent_acked, sent_acked,
      received 0xAB, ack_done, received 0xCD, stop_done, GetData [0, 0] 2] \<and>
   (\<exists>tr. exec
      [Puts 0x50 0x10 [0x48, 0x69, 0] 0, sent_acked, sent_acked, sent_acked, sent_acked,
       sent_acked, stop_done,
       Gets 0x50 0x10 2, sent_acked, sent_acked, sent_acked, sent_acked, sent_acked,
       received 0xAB, ack_done, received 0xCD, stop_done, GetData [0, 0] 2] boot = Some tr \<and>
     list_all2 step_post
      [Puts 0x50 0x10 [0x48, 0x69, 0] 0, sent_acked, sent_acked, sent_acked, sent_acked,
       sent_acked, stop_done,
       Gets 0x50 0x10 2, sent_acked, sent_acked, sent_acked, sent_acked, sent_acked,
       received 0xAB, ack_done, received 0xCD, stop_done, GetData [0, 0] 2] tr)"
proof -
  have inv: "buffer_invariant boot"
    by (simp add: buffer_invariant_def eval_defs)
  have con: "list_all in_contract
     [Puts 0x50 0x10 [0x48, 0x69, 0] 0, sent_acked, sent_acked, sent_acked, sent_acked,
      sent_acked, stop_done,
      Gets 0x50 0x10 2, sent_acked, sent_acked, sent_acked, sent_acked, sent_acked,
      received 0xAB, ack_done, received 0xCD, stop_done, GetData [0, 0] 2]"
    by (simp add: sent_acked_def ack_done_def received_def stop_done_def)
  from buffer_invariant_kept [OF inv con] inv con show ?thesis by blast
qed

text \<open>
  The invariant as the specification words it fails while a read is running: the routine
  counts the received bytes against the pending read count and leaves the length at 1, so
  after the second received byte the cursor is 2 and the length 1. The two other
  conjuncts are inputs outside the contract above, where the capacity check lets a
  request through that does not fit: \<open>i2c_puts\<close> with \<open>len = 0\<close> and a string of 31 bytes
  (the check is made with \<open>len = 0\<close>, before the string is measured) writes behind the end
  of the buffer, and \<open>i2c_gets\<close> with \<open>len = 65535\<close> (where \<^verbatim>\<open>1 + len\<close> wraps to 0) is
  admitted with a pending read count of 65535.
\<close>

theorem spec_invariant_counterexample:
  "map_option transaction_active
     (run [Gets 0x50 0x10 2, sent_acked, sent_acked, sent_acked, sent_acked, sent_acked,
           received 0xAB, ack_done, received 0xCD] boot) = Some True \<and>
   map_option spec_buffer_invariant
     (run [Gets 0x50 0x10 2, sent_acked, sent_acked, sent_acked, sent_acked, sent_acked,
           received 0xAB, ack_done, received 0xCD] boot) = Some False \<and>
   map_option TRXBufferCurrPos
     (run [Gets 0x50 0x10 2, sent_acked, sent_acked, sent_acked, sent_acked, sent_acked,
           received 0xAB, ack_done, received 0xCD] boot) = Some 2 \<and>
   map_option TRXBufferLen
     (run [Gets 0x50 0x10 2, sent_acked, sent_acked, sent_acked, sent_acked, sent_acked,
           received 0xAB, ack_done, received 0xCD] boot) = Some 1 \<and>
   i2c_puts 0x50 0x10
     [0x41, 0x41, 0x41, 0x41, 0x41, 0x41, 0x41, 0x41, 0x41, 0x41, 0x41, 0x41, 0x41, 0x41,
      0x41, 0x41, 0x41, 0x41, 0x41, 0x41, 0x41, 0x41, 0x41, 0x41, 0x41, 0x41, 0x41, 0x41,
      0x41, 0x41, 0x41, 0] 0 boot = None \<and>
   map_option numRXBytes (run [Gets 0x50 0x10 0xFFFF] boot) = Some 0xFFFF \<and>
   map_option i2c_state (run [Gets 0x50 0x10 0xFFFF] boot) = Some I2C_STATE_sendingStart"
  by (simp add: eval_defs transaction_active_def spec_buffer_invariant_def puts_loop.simps
      word_le_nat_alt)

subsection \<open>Latched errors\<close>

lemma isr_error_cases:
  "case I2CInterruptRoutine s of None \<Rightarrow> True
   | Some t \<Rightarrow> i2c_error t = i2c_error s \<or> i2c_error t \<noteq> I2C_ERR_noError"
  by (cases "i2c_state s")
    (simp_all add: isr_defs macro_defs Let_def split: option.split)

lemma isr_keeps_error:
  assumes "I2CInterruptRoutine s = Some t" and "i2c_error s \<noteq> I2C_ERR_noError"
  shows "i2c_error t \<noteq> I2C_ERR_noError"
  using isr_error_cases [of s] assms by auto

lemma rejected_step:
  "is_admission e \<Longrightarrow>
   (case step e s of
      None \<Rightarrow> True
    | Some (res, t) \<Rightarrow>
        res = Some I2C_ERR_busy \<or> res = Some I2C_ERR_disabled \<longrightarrow>
          t = s\<lparr>i2c_error := the res\<rparr>)"
  by (cases e)
    (simp_all add: i2c_putc_def i2c_puts_def i2c_getc_def i2c_gets_def Let_def
      split: option.split)

lemma latched_request:
  "i2c_error s \<noteq> I2C_ERR_noError \<Longrightarrow> is_request e \<Longrightarrow>
   step e s = Some (Some I2C_ERR_inErrorState, s)"
  by (cases e)
    (simp_all add: i2c_putc_def i2c_puts_def i2c_getc_def i2c_gets_def i2c_getData_def)

lemma latched_step:
  assumes "i2c_error s \<noteq> I2C_ERR_noError" and "\<not> calls_reset e"
    and "step e s = Some p"
  shows "refused_while_latched e p"
proof (cases "is_request e")
  case True
  with assms latched_request [of s e] show ?thesis by auto
next
  case False
  show ?thesis
  proof (cases e)
    case (Interrupt bcl ack rcv)
    with assms(3) obtain t where t: "master_interrupt bcl ack rcv s = Some t"
      and p: "p = (None, t)"
      by (auto split: option.splits)
    from t assms(1) have "i2c_error t \<noteq> I2C_ERR_noError"
      unfolding master_interrupt_def by (auto dest: isr_keeps_error)
    with p Interrupt show ?thesis by simp
  next
    case Disable
    with assms show ?thesis by (auto simp add: i2c_disable_def)
  next
    case (Set_stayInErrorState b)
    with assms show ?thesis by auto
  qed (use False assms(2) in simp_all)
qed

lemma latched_exec:
  assumes "i2c_error s \<noteq> I2C_ERR_noError" and "list_all (Not \<circ> calls_reset) es"
    and "exec es s = Some tr"
  shows "list_all2 refused_while_latched es tr"
  using assms
proof (induction es arbitrary: s tr)
  case Nil
  then show ?case by simp
next
  case (Cons e es)
  from Cons.prems(3) obtain r t tr' where st: "step e s = Some (r, t)"
    and ex: "exec es t = Some tr'" and tr: "tr = (r, t) # tr'"
    by (auto split: option.splits)
  from Cons.prems(2) have nr: "\<not> calls_reset e" by simp
  from Cons.prems(1) nr st have post: "refused_while_latched e (r, t)"
    by (rule latched_step)
  then have "i2c_error t \<noteq> I2C_ERR_noError" by simp
  with Cons.IH [of t tr'] Cons.prems ex have "list_all2 refused_while_latched es tr'" by simp
  with post tr show ?case by simp
qed

lemma latched_step_total:
  assumes "buffer_invariant s" and "i2c_error s \<noteq> I2C_ERR_noError" and "\<not> calls_reset e"
  shows "\<exists>r t. step e s = Some (r, t) \<and> buffer_invariant t"
proof (cases "is_request e")
  case True
  with assms latched_request [of s e] show ?thesis by simp
next
  case False
  show ?thesis
  proof (cases e)
    case (Interrupt bcl ack rcv)
    with assms(1) interrupt_keeps_invariant [of s bcl ack rcv] show ?thesis by auto
  next
    case Disable
    with assms show ?thesis by (simp add: i2c_disable_def buffer_invariant_def)
  next
    case (Set_stayInErrorState b)
    with assms show ?thesis by (simp add: buffer_invariant_def)
  qed (use False assms(3) in simp_all)
qed

lemma latched_exec_total:
  assumes "buffer_invariant s" and "i2c_error s \<noteq> I2C_ERR_noError"
    and "list_all (Not \<circ> calls_reset) es"
  shows "\<exists>tr. exec es s = Some tr"
  using assms
proof (induction es arbitrary: s)
  case Nil
  then show ?case by simp
next
  case (Cons e es)
  from Cons.prems(3) have nr: "\<not> calls_reset e" by simp
  from Cons.prems(1,2) nr latched_step_total [of s e]
  obtain r t where st: "step e s = Some (r, t)" and inv: "buffer_invariant t"
    by auto
  from Cons.prems(2) nr st have "refused_while_latched e (r, t)"
    by (rule latched_step)
  then have "i2c_error t \<noteq> I2C_ERR_noError" by simp
  with Cons.IH [of t] inv Cons.prems obtain tr where "exec es t = Some tr" by auto
  with st show ?case by simp
qed

text \<open>
  Claim C9. If a request (\<open>i2c_putc\<close>, \<open>i2c_puts\<close>, \<open>i2c_getc\<close>, \<open>i2c_gets\<close>) returns
  \<^verbatim>\<open>I2C_ERR_busy\<close> or \<^verbatim>\<open>I2C_ERR_disabled\<close>, it has stored that code in \<open>i2c_error\<close>. From then on,
  through any sequence of requests, \<open>i2c_getData\<close> calls, interrupts, \<open>i2c_disable\<close> calls and
  assignments to the policy flag that contains no call of \<open>i2c_reset\<close> (nor of \<open>i2c_init\<close> or
  \<open>i2c_enable\<close>, which call it), the error stays latched and every request and every
  \<open>i2c_getData\<close> returns \<^verbatim>\<open>I2C_ERR_inErrorState\<close>; the interrupts of the sequence may complete
  the transaction that was running. Started in a state with the buffer invariant, the
  sequence runs to its end.
\<close>

theorem rejection_latches:
  assumes "is_admission e" and "step e s = Some (Some code, t)"
    and "code = I2C_ERR_busy \<or> code = I2C_ERR_disabled"
    and "list_all (Not \<circ> calls_reset) es"
  shows "i2c_error t = code \<and>
         (\<forall>tr. exec es t = Some tr \<longrightarrow> list_all2 refused_while_latched es tr) \<and>
         (buffer_invariant s \<longrightarrow> (\<exists>tr. exec es t = Some tr))"
proof -
  from rejected_step [OF assms(1), of s] assms(2,3)
  have t: "t = s\<lparr>i2c_error := code\<rparr>" by auto
  then have e: "i2c_error t = code" by simp
  from t have inv: "buffer_invariant s \<Longrightarrow> buffer_invariant t"
    by (simp add: buffer_invariant_def)
  from e assms(3) have ne: "i2c_error t \<noteq> I2C_ERR_noError" by auto
  from ne assms(4) have "\<forall>tr. exec es t = Some tr \<longrightarrow> list_all2 refused_while_latched es tr"
    by (auto intro: latched_exec)
  moreover from ne inv assms(4) have "buffer_invariant s \<longrightarrow> (\<exists>tr. exec es t = Some tr)"
    by (auto intro: latched_exec_total)
  ultimately show ?thesis using e by simp
qed

theorem rejection_latches_witness:
  "step (Getc 0x50 0x10) (the (run [Putc 0x50 0x10 0xAA] boot)) =
     Some (Some I2C_ERR_busy, (the (run [Putc 0x50 0x10 0xAA] boot))\<lparr>i2c_error := I2C_ERR_busy\<rparr>) \<and>
   (\<exists>tr. exec [sent_acked, sent_acked, sent_acked, sent_acked, stop_done,
               Putc 0x50 0x10 0xAA, Gets 0x50 0x10 2, GetData [0] 1]
            ((the (run [Putc 0x50 0x10 0xAA] boot))\<lparr>i2c_error := I2C_ERR_busy\<rparr>) = Some tr \<and>
         list_all2 refused_while_latched
           [sent_acked, sent_acked, sent_acked, sent_acked, stop_done,
            Putc 0x50 0x10 0xAA, Gets 0x50 0x10 2, GetData [0] 1] tr) \<and>
   map_option (map (i2c_state \<circ> snd))
     (exec [sent_acked, sent_acked, sent_acked, sent_acked, stop_done,
            Putc 0x50 0x10 0xAA, Gets 0x50 0x10 2, GetData [0] 1]
        ((the (run [Putc 0x50 0x10 0xAA] boot))\<lparr>i2c_error := I2C_ERR_busy\<rparr>)) =
     Some [I2C_STATE_dataTX, I2C_STATE_dataTX, I2C_STATE_dataTX, I2C_STATE_sendingStop,
           I2C_STATE_idle, I2C_STATE_idle, I2C_STATE_idle, I2C_STATE_idle]"
proof -
  let ?s = "the (run [Putc 0x50 0x10 0xAA] boot)"
  let ?t = "?s\<lparr>i2c_error := I2C_ERR_busy\<rparr>"
  let ?es = "[sent_acked, sent_acked, sent_acked, sent_acked, stop_done,
              Putc 0x50 0x10 0xAA, Gets 0x50 0x10 2, GetData [0] 1]"
  have adm: "is_admission (Getc 0x50 0x10)" by simp
  have st: "step (Getc 0x50 0x10) ?s = Some (Some I2C_ERR_busy, ?t)"
    by (simp add: eval_defs)
  have code: "I2C_ERR_busy = I2C_ERR_busy \<or> I2C_ERR_busy = I2C_ERR_disabled" by simp
  have nores: "list_all (Not \<circ> calls_reset) ?es"
    by (simp add: sent_acked_def stop_done_def)
  have inv: "buffer_invariant ?s"
    by (simp add: buffer_invariant_def eval_defs)
  have states: "map_option (map (i2c_state \<circ> snd)) (exec ?es ?t) =
     Some [I2C_STATE_dataTX, I2C_STATE_dataTX, I2C_STATE_dataTX, I2C_STATE_sendingStop,
           I2C_STATE_idle, I2C_STATE_idle, I2C_STATE_idle, I2C_STATE_idle]"
    by (simp add: eval_defs stop_done_def)
  from rejection_latches [OF adm st code nores] inv st states
  show ?thesis by blast
qed

subsection \<open>A complete read\<close>

lemma write_address_bit0: "(push_bit 1 a AND 0xfe) AND 1 = (0 :: u8)"
  by (simp add: and.assoc)

lemma write_address_bit0': "(a * 2 AND 254) AND 1 = (0 :: u8)"
  using write_address_bit0 [of a] by simp

lemma count_reached:
  "unat c + 1 = unat n \<Longrightarrow> c + 1 = n"
  for c n :: "16 word"
  using u16 [of c] u16 [of n] by (simp add: word_nat_simps)

lemma count_not_reached:
  "unat c + 1 < unat n \<Longrightarrow> c + 1 \<noteq> n \<and> unat (c + 1) = unat c + 1"
  for c n :: "16 word"
  using u16 [of c] u16 [of n] by (simp add: word_nat_simps)

text \<open>One interrupt in the receiving state, before and at the last byte, and the interrupt
  that ends an acknowledge.\<close>

lemma rx_step_more:
  assumes "i2c_state s = I2C_STATE_dataRX"
    and "unat (TRXBufferCurrPos s) + 1 < unat (numRXBytes s)"
    and "numRXBytes s \<le> 31" and "length (TRXBuffer s) = 32"
  shows "\<exists>t. step (received b) s = Some (None, t) \<and> i2c_state t = I2C_STATE_ack \<and> \<not> PEN t \<and>
           TRXBuffer t = (TRXBuffer s)[unat (TRXBufferCurrPos s) := b] \<and>
           TRXBufferCurrPos t = TRXBufferCurrPos s + 1 \<and>
           numRXBytes t = numRXBytes s \<and> i2c_error t = i2c_error s"
proof -
  from assms(3) have "unat (numRXBytes s) \<le> 31" by (simp add: word_le_nat_alt)
  with assms(2,4) have "unat (TRXBufferCurrPos s) < length (TRXBuffer s)" by simp
  with assms(1) count_not_reached [OF assms(2)] show ?thesis
    by (simp add: received_def isr_defs macro_defs Let_def)
qed

lemma rx_step_last:
  assumes "i2c_state s = I2C_STATE_dataRX"
    and "unat (TRXBufferCurrPos s) + 1 = unat (numRXBytes s)"
    and "numRXBytes s \<le> 31" and "length (TRXBuffer s) = 32"
  shows "\<exists>t. step (received b) s = Some (None, t) \<and> i2c_state t = I2C_STATE_sendingStop \<and>
           PEN t \<and>
           TRXBuffer t = (TRXBuffer s)[unat (TRXBufferCurrPos s) := b] \<and>
           TRXBufferCurrPos t = numRXBytes s \<and>
           numRXBytes t = numRXBytes s \<and> i2c_error t = i2c_error s"
proof -
  from assms(3) have "unat (numRXBytes s) \<le> 31" by (simp add: word_le_nat_alt)
  with assms(2,4) have "unat (TRXBufferCurrPos s) < length (TRXBuffer s)" by simp
  with assms(1) count_reached [OF assms(2)] show ?thesis
    by (simp add: received_def isr_defs macro_defs Let_def)
qed

lemma ack_step:
  assumes "i2c_state s = I2C_STATE_ack"
  shows "\<exists>t. step ack_done s = Some (None, t) \<and> i2c_state t = I2C_STATE_dataRX \<and> \<not> PEN t \<and>
           TRXBuffer t = TRXBuffer s \<and> TRXBufferCurrPos t = TRXBufferCurrPos s \<and>
           numRXBytes t = numRXBytes s \<and> i2c_error t = i2c_error s"
  using assms by (simp add: ack_done_def isr_defs macro_defs)

text \<open>The receive loop: from the receiving state with \<open>length bs\<close> bytes still to come, the
  interrupts of \<open>receive_events bs\<close> store \<open>bs\<close> from the cursor on, start no stop condition
  before the last byte is stored, and start it then.\<close>

lemma receive_loop:
  assumes "i2c_state s = I2C_STATE_dataRX"
    and "unat (TRXBufferCurrPos s) + length bs = unat (numRXBytes s)"
    and "bs \<noteq> []" and "numRXBytes s \<le> 31" and "length (TRXBuffer s) = 32"
  shows "\<exists>tr. exec (receive_events bs) s = Some tr \<and> tr \<noteq> [] \<and>
           list_all (Not \<circ> PEN \<circ> snd) (butlast tr) \<and>
           PEN (snd (last tr)) \<and> i2c_state (snd (last tr)) = I2C_STATE_sendingStop \<and>
           TRXBufferCurrPos (snd (last tr)) = numRXBytes s \<and>
           TRXBuffer (snd (last tr)) =
             take (unat (TRXBufferCurrPos s)) (TRXBuffer s) @ bs @
             drop (unat (numRXBytes s)) (TRXBuffer s) \<and>
           i2c_error (snd (last tr)) = i2c_error s"
  using assms
proof (induction bs arbitrary: s rule: receive_events.induct)
  case 1
  then show ?case by simp
next
  case (2 b)
  from "2.prems" have c1: "unat (TRXBufferCurrPos s) + 1 = unat (numRXBytes s)" by simp
  from rx_step_last [OF "2.prems"(1) c1 "2.prems"(4,5), of b]
  obtain t where st: "step (received b) s = Some (None, t)"
    and t: "i2c_state t = I2C_STATE_sendingStop" "PEN t"
      "TRXBuffer t = (TRXBuffer s)[unat (TRXBufferCurrPos s) := b]"
      "TRXBufferCurrPos t = numRXBytes s" "i2c_error t = i2c_error s"
    by blast
  from "2.prems"(4) have "unat (numRXBytes s) \<le> 31" by (simp add: word_le_nat_alt)
  with c1 "2.prems"(5) have lt: "unat (TRXBufferCurrPos s) < length (TRXBuffer s)" by simp
  from lt c1 have "(TRXBuffer s)[unat (TRXBufferCurrPos s) := b] =
      take (unat (TRXBufferCurrPos s)) (TRXBuffer s) @ [b] @
      drop (unat (numRXBytes s)) (TRXBuffer s)"
    by (simp add: upd_conv_take_nth_drop)
  with st t show ?case by simp
next
  case (3 b b' bs)
  let ?c = "unat (TRXBufferCurrPos s)"
  from "3.prems" have c1: "?c + 1 < unat (numRXBytes s)" by simp
  from rx_step_more [OF "3.prems"(1) c1 "3.prems"(4,5), of b]
  obtain t1 where st1: "step (received b) s = Some (None, t1)"
    and t1: "i2c_state t1 = I2C_STATE_ack" "\<not> PEN t1"
      "TRXBuffer t1 = (TRXBuffer s)[?c := b]"
      "TRXBufferCurrPos t1 = TRXBufferCurrPos s + 1"
      "numRXBytes t1 = numRXBytes s" "i2c_error t1 = i2c_error s"
    by blast
  from ack_step [OF t1(1)]
  obtain t2 where st2: "step ack_done t1 = Some (None, t2)"
    and t2: "i2c_state t2 = I2C_STATE_dataRX" "\<not> PEN t2"
      "TRXBuffer t2 = TRXBuffer t1" "TRXBufferCurrPos t2 = TRXBufferCurrPos t1"
      "numRXBytes t2 = numRXBytes t1" "i2c_error t2 = i2c_error t1"
    by blast
  from count_not_reached [OF c1] have suc: "unat (TRXBufferCurrPos s + 1) = ?c + 1" by simp
  from "3.prems"(4) have n31: "unat (numRXBytes s) \<le> 31" by (simp add: word_le_nat_alt)
  with c1 "3.prems"(5) have lt: "?c < length (TRXBuffer s)" by simp
  have p2: "unat (TRXBufferCurrPos t2) + length (b' # bs) = unat (numRXBytes t2)"
    using "3.prems"(2) t1 t2 suc by simp
  have p4: "numRXBytes t2 \<le> 31" using "3.prems"(4) t1 t2 by simp
  have p5: "length (TRXBuffer t2) = 32" using "3.prems"(5) t1 t2 by simp
  have p3: "b' # bs \<noteq> []" by simp
  from "3.IH" [OF t2(1) p2 p3 p4 p5]
  obtain tr where ex: "exec (receive_events (b' # bs)) t2 = Some tr" and ne: "tr \<noteq> []"
    and np: "list_all (Not \<circ> PEN \<circ> snd) (butlast tr)"
    and fin: "PEN (snd (last tr))" "i2c_state (snd (last tr)) = I2C_STATE_sendingStop"
      "TRXBufferCurrPos (snd (last tr)) = numRXBytes t2"
      "TRXBuffer (snd (last tr)) =
         take (unat (TRXBufferCurrPos t2)) (TRXBuffer t2) @ (b' # bs) @
         drop (unat (numRXBytes t2)) (TRXBuffer t2)"
      "i2c_error (snd (last tr)) = i2c_error t2"
    by blast
  have buf: "take (unat (TRXBufferCurrPos t2)) (TRXBuffer t2) @ (b' # bs) @
             drop (unat (numRXBytes t2)) (TRXBuffer t2) =
             take ?c (TRXBuffer s) @ (b # b' # bs) @ drop (unat (numRXBytes s)) (TRXBuffer s)"
    using t1 t2 suc lt c1
    by (simp add: take_Suc_conv_app_nth drop_update_cancel)
  let ?tr = "(None, t1) # (None, t2) # tr"
  have ex_all: "exec (receive_events (b # b' # bs)) s = Some ?tr"
    using st1 st2 ex by simp
  have la: "last ?tr = last tr" and bl: "butlast ?tr = (None, t1) # (None, t2) # butlast tr"
    using ne by simp_all
  have np': "list_all (Not \<circ> PEN \<circ> snd) (butlast ?tr)"
    unfolding bl using np t1(2) t2(2) by simp
  show ?case
  proof (intro exI conjI)
    show "exec (receive_events (b # b' # bs)) s = Some ?tr" by (rule ex_all)
    show "?tr \<noteq> []" by simp
    show "list_all (Not \<circ> PEN \<circ> snd) (butlast ?tr)" by (rule np')
    show "PEN (snd (last ?tr))" unfolding la by (rule fin(1))
    show "i2c_state (snd (last ?tr)) = I2C_STATE_sendingStop" unfolding la by (rule fin(2))
    show "TRXBufferCurrPos (snd (last ?tr)) = numRXBytes s"
      unfolding la using fin(3) t1(5) t2(5) by simp
    show "TRXBuffer (snd (last ?tr)) =
            take ?c (TRXBuffer s) @ (b # b' # bs) @ drop (unat (numRXBytes s)) (TRXBuffer s)"
      unfolding la using fin(4) buf by simp
    show "i2c_error (snd (last ?tr)) = i2c_error s"
      unfolding la using fin(5) t1(6) t2(6) by simp
  qed
qed


lemma read_capacity: "n \<le> 31 \<Longrightarrow> \<not> 32 < 1 + n"
  for n :: "16 word"
  using u16 [of n] by (simp add: word_nat_simps)

text \<open>The first five interrupts of a read: start condition, address, register, restart
  condition, address with the read bit. They leave the driver receiving, cursor 0.\<close>

lemma read_setup:
  assumes "i2c_state s = I2C_STATE_idle" and "i2c_error s = I2C_ERR_noError"
    and "length (TRXBuffer s) = 32" and "N \<noteq> 0" and "N \<le> 31"
  shows "\<exists>s1 t1 t2 t3 t4 t5.
           i2c_gets a r N s = (I2C_ERR_noError, s1) \<and> \<not> PEN s1 \<and>
           step sent_acked s1 = Some (None, t1) \<and> \<not> PEN t1 \<and>
           step sent_acked t1 = Some (None, t2) \<and> \<not> PEN t2 \<and>
           step sent_acked t2 = Some (None, t3) \<and> \<not> PEN t3 \<and>
           step sent_acked t3 = Some (None, t4) \<and> \<not> PEN t4 \<and>
           step sent_acked t4 = Some (None, t5) \<and> \<not> PEN t5 \<and>
           i2c_state t5 = I2C_STATE_dataRX \<and> TRXBufferCurrPos t5 = 0 \<and>
           numRXBytes t5 = N \<and> length (TRXBuffer t5) = 32 \<and>
           i2c_error t5 = I2C_ERR_noError"
  using assms read_capacity [of N]
  by (simp add: i2c_gets_def I2C_TRX_BUFFER_SIZE_def sent_acked_def isr_defs macro_defs
      Let_def write_address_bit0' or_one_bit0)

text \<open>
  Claim C6. Let \<open>i2c_gets\<close> be called for \<open>N\<close> bytes, \<open>1 \<le> N \<le> 31\<close>, in the idle state with no
  error latched, and let the interrupts of a read follow in which every transmitted byte is
  acknowledged, no collision is reported and the bytes \<open>bs\<close> (\<open>N\<close> of them) are received. Then
  the request is admitted; no interrupt before the one of the last byte starts a stop
  condition; that one does, with the cursor at \<open>N\<close> and \<open>bs\<close> in the first \<open>N\<close> places of the
  buffer; the interrupt at the end of the stop condition makes the driver idle, and
  \<open>i2c_getData\<close> with an array of \<open>N\<close> bytes then returns success and exactly \<open>bs\<close>, in the
  order of reception.
\<close>

theorem read_roundtrip:
  assumes "i2c_state s = I2C_STATE_idle" and "i2c_error s = I2C_ERR_noError"
    and "length (TRXBuffer s) = 32"
    and "1 \<le> N" and "N \<le> I2C_TRX_BUFFER_SIZE - 1" and "length bs = unat N"
  shows "\<exists>s1 tr t u.
           i2c_gets a r N s = (I2C_ERR_noError, s1) \<and> \<not> PEN s1 \<and>
           exec (sent_acked # sent_acked # sent_acked # sent_acked # sent_acked #
                 receive_events bs) s1 = Some tr \<and>
           tr \<noteq> [] \<and> list_all (Not \<circ> PEN \<circ> snd) (butlast tr) \<and>
           snd (last tr) = t \<and> PEN t \<and> i2c_state t = I2C_STATE_sendingStop \<and>
           TRXBufferCurrPos t = N \<and> take (unat N) (TRXBuffer t) = bs \<and>
           step stop_done t = Some (None, u) \<and>
           i2c_state u = I2C_STATE_idle \<and> i2c_error u = I2C_ERR_noError \<and>
           (\<forall>dest. length dest = unat N \<longrightarrow>
              i2c_getData dest N u = Some (I2C_ERR_noError, bs, u))"
proof -
  from assms(4) have n0: "N \<noteq> 0" by auto
  from assms(5) have n31: "N \<le> 31" by (simp add: I2C_TRX_BUFFER_SIZE_def)
  then have un31: "unat N \<le> 31" by (simp add: word_le_nat_alt)
  from n0 have unpos: "0 < unat N" by (simp add: unat_gt_0)
  from read_setup [OF assms(1-3) n0 n31, of a r]
  obtain s1 t1 t2 t3 t4 t5 where
    adm: "i2c_gets a r N s = (I2C_ERR_noError, s1)" "\<not> PEN s1"
    and st: "step sent_acked s1 = Some (None, t1)" "step sent_acked t1 = Some (None, t2)"
      "step sent_acked t2 = Some (None, t3)" "step sent_acked t3 = Some (None, t4)"
      "step sent_acked t4 = Some (None, t5)"
    and np: "\<not> PEN t1" "\<not> PEN t2" "\<not> PEN t3" "\<not> PEN t4" "\<not> PEN t5"
    and t5: "i2c_state t5 = I2C_STATE_dataRX" "TRXBufferCurrPos t5 = 0" "numRXBytes t5 = N"
      "length (TRXBuffer t5) = 32" "i2c_error t5 = I2C_ERR_noError"
    by blast
  from assms(6) unpos have bs: "bs \<noteq> []" by auto
  have c: "unat (TRXBufferCurrPos t5) + length bs = unat (numRXBytes t5)"
    using t5 assms(6) by simp
  have n: "numRXBytes t5 \<le> 31" using t5 n31 by simp
  from receive_loop [OF t5(1) c bs n t5(4)]
  obtain tr where ex: "exec (receive_events bs) t5 = Some tr" and ne: "tr \<noteq> []"
    and quiet: "list_all (Not \<circ> PEN \<circ> snd) (butlast tr)"
    and fin: "PEN (snd (last tr))" "i2c_state (snd (last tr)) = I2C_STATE_sendingStop"
      "TRXBufferCurrPos (snd (last tr)) = numRXBytes t5"
      "TRXBuffer (snd (last tr)) =
         take (unat (TRXBufferCurrPos t5)) (TRXBuffer t5) @ bs @
         drop (unat (numRXBytes t5)) (TRXBuffer t5)"
      "i2c_error (snd (last tr)) = i2c_error t5"
    by blast
  let ?tr = "(None, t1) # (None, t2) # (None, t3) # (None, t4) # (None, t5) # tr"
  let ?t = "snd (last tr)"
  have ex_all: "exec (sent_acked # sent_acked # sent_acked # sent_acked # sent_acked #
                      receive_events bs) s1 = Some ?tr"
    using st ex by simp
  have la: "last ?tr = last tr"
    and bl: "butlast ?tr =
               (None, t1) # (None, t2) # (None, t3) # (None, t4) # (None, t5) # butlast tr"
    using ne by simp_all
  have quiet': "list_all (Not \<circ> PEN \<circ> snd) (butlast ?tr)"
    unfolding bl using quiet np by simp
  have cur: "TRXBufferCurrPos ?t = N" using fin(3) t5(3) by simp
  have buf: "TRXBuffer ?t = bs @ drop (unat N) (TRXBuffer t5)"
    using fin(4) t5(2,3) by simp
  then have tk: "take (unat N) (TRXBuffer ?t) = bs"
    using assms(6) by simp
  have lenbuf: "length (TRXBuffer ?t) = 32"
    using buf t5(4) assms(6) un31 by simp
  define u where "u = (?t\<lparr>BCL := False, ACKSTAT := False, I2CRCV := 0, MI2CIF := True,
                          i2c_state := I2C_STATE_idle, MI2CIF := False\<rparr>)"
  have stop: "step stop_done ?t = Some (None, u)"
    using fin(2) by (simp add: stop_done_def isr_defs macro_defs u_def)
  have u: "i2c_state u = I2C_STATE_idle" "i2c_error u = I2C_ERR_noError"
    "TRXBufferCurrPos u = N" "TRXBuffer u = TRXBuffer ?t"
    using fin(5) t5(5) cur by (simp_all add: u_def)
  have get: "\<forall>dest. length dest = unat N \<longrightarrow>
               i2c_getData dest N u = Some (I2C_ERR_noError, bs, u)"
  proof (intro allI impI)
    fix dest :: "u8 list"
    assume d: "length dest = unat N"
    have "i2c_getData dest N u =
            Some (I2C_ERR_noError, take (unat N) (TRXBuffer u) @ drop (unat N) dest, u)"
      using u n0 lenbuf un31 d by (intro i2c_getData_success) simp_all
    with u(4) tk d show "i2c_getData dest N u = Some (I2C_ERR_noError, bs, u)" by simp
  qed
  show ?thesis
  proof (intro exI conjI)
    show "i2c_gets a r N s = (I2C_ERR_noError, s1)" by (rule adm(1))
    show "\<not> PEN s1" by (rule adm(2))
    show "exec (sent_acked # sent_acked # sent_acked # sent_acked # sent_acked #
                receive_events bs) s1 = Some ?tr" by (rule ex_all)
    show "?tr \<noteq> []" by simp
    show "list_all (Not \<circ> PEN \<circ> snd) (butlast ?tr)" by (rule quiet')
    show "snd (last ?tr) = ?t" unfolding la by (rule refl)
    show "PEN ?t" by (rule fin(1))
    show "i2c_state ?t = I2C_STATE_sendingStop" by (rule fin(2))
    show "TRXBufferCurrPos ?t = N" by (rule cur)
    show "take (unat N) (TRXBuffer ?t) = bs" by (rule tk)
    show "step stop_done ?t = Some (None, u)" by (rule stop)
    show "i2c_state u = I2C_STATE_idle" by (rule u(1))
    show "i2c_error u = I2C_ERR_noError" by (rule u(2))
    show "\<forall>dest. length dest = unat N \<longrightarrow>
            i2c_getData dest N u = Some (I2C_ERR_noError, bs, u)" by (rule get)
  qed
qed


theorem read_roundtrip_witness:
  "i2c_state boot = I2C_STATE_idle \<and> i2c_error boot = I2C_ERR_noError \<and>
   length (TRXBuffer boot) = 32 \<and>
   (1 :: size_t) \<le> 3 \<and> (3 :: size_t) \<le> I2C_TRX_BUFFER_SIZE - 1 \<and>
   length [0xAB, 0xCD, 0xEF :: u8] = unat (3 :: size_t) \<and>
   (\<exists>s1 tr t u.
      i2c_gets 0x50 0x10 3 boot = (I2C_ERR_noError, s1) \<and>
      exec (sent_acked # sent_acked # sent_acked # sent_acked # sent_acked #
            receive_events [0xAB, 0xCD, 0xEF]) s1 = Some tr \<and>
      list_all (Not \<circ> PEN \<circ> snd) (butlast tr) \<and>
      snd (last tr) = t \<and> PEN t \<and> TRXBufferCurrPos t = 3 \<and>
      step stop_done t = Some (None, u) \<and>
      i2c_getData [0, 0, 0] 3 u = Some (I2C_ERR_noError, [0xAB, 0xCD, 0xEF], u))"
proof -
  have h1: "i2c_state boot = I2C_STATE_idle" and h2: "i2c_error boot = I2C_ERR_noError"
    and h3: "length (TRXBuffer boot) = 32"
    by (simp_all add: eval_defs)
  have h4: "(1 :: size_t) \<le> 3" and h5: "(3 :: size_t) \<le> I2C_TRX_BUFFER_SIZE - 1"
    by (simp_all add: I2C_TRX_BUFFER_SIZE_def word_le_nat_alt)
  have h6: "length [0xAB, 0xCD, 0xEF :: u8] = unat (3 :: size_t)" by simp
  from read_roundtrip [OF h1 h2 h3 h4 h5 h6, of "0x50" "0x10"]
  obtain s1 tr t u where
    a: "i2c_gets 0x50 0x10 3 boot = (I2C_ERR_noError, s1)"
    and b: "exec (sent_acked # sent_acked # sent_acked # sent_acked # sent_acked #
                  receive_events [0xAB, 0xCD, 0xEF]) s1 = Some tr"
    and c: "list_all (Not \<circ> PEN \<circ> snd) (butlast tr)"
    and d: "snd (last tr) = t" "PEN t" "TRXBufferCurrPos t = 3"
    and e: "step stop_done t = Some (None, u)"
    and f: "\<forall>dest. length dest = unat (3 :: size_t) \<longrightarrow>
              i2c_getData dest 3 u = Some (I2C_ERR_noError, [0xAB, 0xCD, 0xEF], u)"
    by blast
  from f have g: "i2c_getData [0, 0, 0] 3 u = Some (I2C_ERR_noError, [0xAB, 0xCD, 0xEF], u)"
    by simp
  from h1 h2 h3 h4 h5 h6 a b c d e g show ?thesis by blast
qed

end
